theory Spec2Isabelle
  imports Complex_Main "HOL-Library.AList" "HOL-Library.Sublist"
begin

section \<open>Log analysis of the snapshot-interpolation test harness\<close>

text \<open>
  The development embeds \<^verbatim>\<open>analyze_test_logs.py\<close> (\<^verbatim>\<open>LogAnalyzer\<close>,
  \<^verbatim>\<open>ReportGenerator\<close>) and the log analysis of
  \<^verbatim>\<open>testing/tools/test_framework.py\<close> (\<^verbatim>\<open>_analyze_logs\<close>,
  \<^verbatim>\<open>_analyze_server_log\<close>, \<^verbatim>\<open>_analyze_client_log\<close> and the issue checks
  of \<^verbatim>\<open>_generate_agent_summary\<close>).

  Conventions of the embedding:
  \<^item> a Python \<^verbatim>\<open>str\<close> is a \<^typ>\<open>string\<close>; a \<^typ>\<open>char\<close> stands for the code
    point of the same number, so the model covers text over the code points 0..255, and
    the character classes below are Python's classes restricted to that range;
  \<^item> a Python \<^verbatim>\<open>int\<close> is an \<^typ>\<open>int\<close>;
  \<^item> a Python \<^verbatim>\<open>float\<close> is read as the exact rational it denotes (\<^typ>\<open>rat\<close>):
    rounding, infinities and NaN of IEEE doubles are not modelled;
  \<^item> an exception is the \<open>Inl\<close> branch of a sum type;
  \<^item> a text file is the list of the lines that iterating over it yields, and the file
    system is a map from paths to files.
\<close>

datatype py_error = ValueError | FileNotFoundError | PermissionError | ZeroDivisionError

subsection \<open>Strings\<close>

text \<open>\<^verbatim>\<open>str.isspace\<close> on one character; also the class \<^verbatim>\<open>\s\<close> of \<^verbatim>\<open>re\<close>.\<close>

definition is_space :: "char \<Rightarrow> bool" where
  "is_space c = (let n = (of_char c :: nat) in
     (9 \<le> n \<and> n \<le> 13) \<or> (28 \<le> n \<and> n \<le> 32) \<or> n = 133 \<or> n = 160)"

text \<open>The class \<^verbatim>\<open>\d\<close>.\<close>

definition is_digit :: "char \<Rightarrow> bool" where
  "is_digit c = (let n = (of_char c :: nat) in 48 \<le> n \<and> n \<le> 57)"

text \<open>The class \<^verbatim>\<open>\w\<close>: alphanumeric characters and the underscore.\<close>

definition is_word :: "char \<Rightarrow> bool" where
  "is_word c = (let n = (of_char c :: nat) in
     (48 \<le> n \<and> n \<le> 57) \<or> (65 \<le> n \<and> n \<le> 90) \<or> n = 95 \<or> (97 \<le> n \<and> n \<le> 122) \<or>
     n = 170 \<or> n = 178 \<or> n = 179 \<or> n = 181 \<or> n = 185 \<or> n = 186 \<or>
     (188 \<le> n \<and> n \<le> 190) \<or> (192 \<le> n \<and> n \<le> 214) \<or> (216 \<le> n \<and> n \<le> 246) \<or>
     (248 \<le> n \<and> n \<le> 255))"

text \<open>\<^verbatim>\<open>str.lower\<close>.\<close>

definition lower_char :: "char \<Rightarrow> char" where
  "lower_char c = (let n = (of_char c :: nat) in
     if (65 \<le> n \<and> n \<le> 90) \<or> (192 \<le> n \<and> n \<le> 214) \<or> (216 \<le> n \<and> n \<le> 222)
     then char_of (n + 32) else c)"

definition lower :: "string \<Rightarrow> string" where
  "lower s = map lower_char s"

text \<open>\<^verbatim>\<open>str.strip()\<close>.\<close>

definition strip :: "string \<Rightarrow> string" where
  "strip s = rev (dropWhile is_space (rev (dropWhile is_space s)))"

text \<open>\<^verbatim>\<open>sub in s\<close> is \<^term>\<open>sublist sub s\<close>.\<close>

text \<open>
  \<^verbatim>\<open>str.split()\<close>: the maximal runs of characters that are not whitespace.
  The first argument is the token read so far.
\<close>

fun split_ws_from :: "string \<Rightarrow> string \<Rightarrow> string list" where
  "split_ws_from cur [] = (if cur = [] then [] else [cur])"
| "split_ws_from cur (c # cs) =
     (if is_space c
      then (if cur = [] then split_ws_from [] cs else cur # split_ws_from [] cs)
      else split_ws_from (cur @ [c]) cs)"

definition split_ws :: "string \<Rightarrow> string list" where
  "split_ws s = split_ws_from [] s"

text \<open>\<^verbatim>\<open>pair.split('=', 1)\<close> of a string that contains \<^verbatim>\<open>=\<close>.\<close>

definition split_eq :: "string \<Rightarrow> string \<times> string" where
  "split_eq pair =
     (takeWhile (\<lambda>c. c \<noteq> CHR ''='') pair, tl (dropWhile (\<lambda>c. c \<noteq> CHR ''='') pair))"

text \<open>\<^verbatim>\<open>str(n)\<close> of an integer.\<close>

definition digit_char :: "nat \<Rightarrow> char" where
  "digit_char d = char_of (48 + d)"

fun str_nat :: "nat \<Rightarrow> string" where
  "str_nat n = (if n < 10 then [digit_char n] else str_nat (n div 10) @ [digit_char (n mod 10)])"

declare str_nat.simps [simp del]

definition str_int :: "int \<Rightarrow> string" where
  "str_int i = (if i < 0 then CHR ''-'' # str_nat (nat (- i)) else str_nat (nat i))"

text \<open>
  \<^verbatim>\<open>float(s)\<close> on the tokens \<^verbatim>\<open>digits.digits\<close>, the only strings the analyzer
  passes to it; \<open>None\<close> stands for every other argument, where Python raises
  \<^verbatim>\<open>ValueError\<close> or accepts a syntax that is not needed here.
\<close>

definition digit_val :: "char \<Rightarrow> nat" where
  "digit_val c = of_char c - 48"

definition decimal :: "string \<Rightarrow> nat" where
  "decimal ds = foldl (\<lambda>a c. 10 * a + digit_val c) 0 ds"

definition py_float :: "string \<Rightarrow> rat option" where
  "py_float s =
     (let ip = takeWhile is_digit s; r = dropWhile is_digit s in
      case r of
        [] \<Rightarrow> None
      | c # fp \<Rightarrow>
          if c = CHR ''.'' \<and> ip \<noteq> [] \<and> fp \<noteq> [] \<and> list_all is_digit fp
          then Some (of_nat (decimal ip) + of_nat (decimal fp) / 10 ^ length fp)
          else None)"

subsection \<open>Regular expressions\<close>

text \<open>
  The fragment of \<^verbatim>\<open>re\<close> that \<^verbatim>\<open>LOG_PATTERN\<close> uses: literals, character classes,
  sequence, greedy repetition of a character class (\<^verbatim>\<open>+\<close> and \<^verbatim>\<open>*\<close>), the
  greedy option \<^verbatim>\<open>?\<close> and capture groups.
\<close>

datatype regex =
    Lit char
  | Cls "char \<Rightarrow> bool"
  | Cat regex regex
  | Rep1 "char \<Rightarrow> bool"
  | Rep0 "char \<Rightarrow> bool"
  | Opt regex
  | Grp nat regex

type_synonym groups = "nat \<rightharpoonup> string"

text \<open>
  Backtracking as a list of successes: \<open>ms r (g, s)\<close> lists, in the order in which the
  engine tries them, the ways \<open>r\<close> matches a prefix of \<open>s\<close>, each with the groups captured
  and the rest of the input. A greedy repetition tries the longest run first and gives
  characters back one at a time; a greedy option tries its body before skipping it.
\<close>

fun ms :: "regex \<Rightarrow> groups \<times> string \<Rightarrow> (groups \<times> string) list" where
  "ms (Lit c) (g, s) = (case s of [] \<Rightarrow> [] | x # xs \<Rightarrow> if x = c then [(g, xs)] else [])"
| "ms (Cls p) (g, s) = (case s of [] \<Rightarrow> [] | x # xs \<Rightarrow> if p x then [(g, xs)] else [])"
| "ms (Cat a b) st = concat (map (ms b) (ms a st))"
| "ms (Rep1 p) (g, s) = map (\<lambda>k. (g, drop k s)) (rev [1 ..< Suc (length (takeWhile p s))])"
| "ms (Rep0 p) (g, s) = map (\<lambda>k. (g, drop k s)) (rev [0 ..< Suc (length (takeWhile p s))])"
| "ms (Opt a) st = ms a st @ [st]"
| "ms (Grp i a) (g, s) =
     map (\<lambda>(g', s'). (g'(i \<mapsto> take (length s - length s') s), s')) (ms a (g, s))"

text \<open>\<^verbatim>\<open>pattern.match(s)\<close>: the groups of the first success, anchored at the start.\<close>

definition re_match :: "regex \<Rightarrow> string \<Rightarrow> groups option" where
  "re_match r s = (case ms r (Map.empty, s) of [] \<Rightarrow> None | (g, rest) # other \<Rightarrow> Some g)"

text \<open>
  \<^verbatim>\<open>\[(\d+\.\d+)\]\s+\[(\w+)\]\s+\[([^\]]+)\]\s+([^|]+)(?:\s*\|\s*(.+))?\<close>
\<close>

definition LOG_PATTERN :: regex where
  "LOG_PATTERN =
     Cat (Lit CHR ''['')
    (Cat (Grp 1 (Cat (Rep1 is_digit) (Cat (Lit CHR ''.'') (Rep1 is_digit))))
    (Cat (Lit CHR '']'')
    (Cat (Rep1 is_space)
    (Cat (Lit CHR ''['')
    (Cat (Grp 2 (Rep1 is_word))
    (Cat (Lit CHR '']'')
    (Cat (Rep1 is_space)
    (Cat (Lit CHR ''['')
    (Cat (Grp 3 (Rep1 (\<lambda>c. c \<noteq> CHR '']'')))
    (Cat (Lit CHR '']'')
    (Cat (Rep1 is_space)
    (Cat (Grp 4 (Rep1 (\<lambda>c. c \<noteq> CHR ''|'')))
         (Opt (Cat (Rep0 is_space)
              (Cat (Lit CHR ''|'')
              (Cat (Rep0 is_space)
                   (Grp 5 (Rep1 (\<lambda>c. c \<noteq> CHR 0x0A)))))))))))))))))))"

subsection \<open>The line parser\<close>

record LogEntry =
  timestamp :: rat
  level :: string
  category :: string
  message :: string
  metadata :: "(string \<times> string) list"
  raw_line :: string

text \<open>
  The loop over \<^verbatim>\<open>metadata_str.split()\<close>. The dictionary is an association list in
  insertion order; storing under a key that is present replaces its value in place.
\<close>

fun parse_metadata :: "(string \<times> string) list \<Rightarrow> string list \<Rightarrow> (string \<times> string) list" where
  "parse_metadata m [] = m"
| "parse_metadata m (pair # pairs) =
     (if CHR ''='' \<in> set pair
      then (case split_eq pair of (key, val) \<Rightarrow> parse_metadata (AList.update key val m) pairs)
      else parse_metadata m pairs)"

text \<open>
  \<^verbatim>\<open>_parse_line\<close>: \<open>Inr None\<close> is the return value \<^verbatim>\<open>None\<close>. A group that
  matched is never absent when the pattern matches, except the optional group 5.
\<close>

definition parse_line :: "string \<Rightarrow> py_error + LogEntry option" where
  "parse_line line =
     (case re_match LOG_PATTERN line of
        None \<Rightarrow> Inr None
      | Some g \<Rightarrow>
          (case py_float (the (g 1)) of
             None \<Rightarrow> Inl ValueError
           | Some ts \<Rightarrow>
               Inr (Some \<lparr>timestamp = ts,
                          level = the (g 2),
                          category = the (g 3),
                          message = strip (the (g 4)),
                          metadata = (case g 5 of
                                        None \<Rightarrow> []
                                      | Some metadata_str \<Rightarrow>
                                          if metadata_str \<noteq> []
                                          then parse_metadata [] (split_ws metadata_str)
                                          else []),
                          raw_line = line\<rparr>)))"

subsection \<open>The metrics accumulator\<close>

record AnalysisResult =
  filename :: string
  total_lines :: int
  entries :: "LogEntry list"
  errors :: int
  warnings :: int
  info :: int
  debug :: int
  snapshots_sent :: int
  snapshots_received :: int
  packet_loss_events :: int
  baseline_mismatches :: int
  player_disappearances :: int
  interpolation_warnings :: int
  chunk_changes :: int
  critical_issues :: "string list"
  warnings_list :: "string list"
  start_time :: rat
  end_time :: rat

text \<open>\<^verbatim>\<open>AnalysisResult(filename=...)\<close>: every other field has its default.\<close>

definition new_result :: "string \<Rightarrow> AnalysisResult" where
  "new_result name =
     \<lparr>filename = name, total_lines = 0, entries = [],
      errors = 0, warnings = 0, info = 0, debug = 0,
      snapshots_sent = 0, snapshots_received = 0, packet_loss_events = 0,
      baseline_mismatches = 0, player_disappearances = 0, interpolation_warnings = 0,
      chunk_changes = 0, critical_issues = [], warnings_list = [],
      start_time = 0, end_time = 0\<rparr>"

text \<open>\<^verbatim>\<open>_update_metrics\<close>: one \<^verbatim>\<open>if\<close>/\<^verbatim>\<open>elif\<close> chain on the level, then seven
  independent tests.\<close>

definition count_level :: "LogEntry \<Rightarrow> AnalysisResult \<Rightarrow> AnalysisResult" where
  "count_level entry r =
     (if level entry = ''ERROR'' then r\<lparr>errors := errors r + 1\<rparr>
      else if level entry = ''WARN'' then r\<lparr>warnings := warnings r + 1\<rparr>
      else if level entry = ''INFO'' then r\<lparr>info := info r + 1\<rparr>
      else if level entry = ''DEBUG'' then r\<lparr>debug := debug r + 1\<rparr>
      else r)"

definition count_events :: "LogEntry \<Rightarrow> AnalysisResult \<Rightarrow> AnalysisResult" where
  "count_events entry r =
     (let r1 = (if category entry = ''SERVER_SNAPSHOT''
                then r\<lparr>snapshots_sent := snapshots_sent r + 1\<rparr> else r);
          r2 = (if category entry = ''CLIENT_SNAPSHOT''
                then r1\<lparr>snapshots_received := snapshots_received r1 + 1\<rparr> else r1);
          r3 = (if sublist ''packet loss'' (lower (message entry))
                then r2\<lparr>packet_loss_events := packet_loss_events r2 + 1\<rparr> else r2);
          r4 = (if category entry = ''CLIENT_DELTA'' \<and> sublist ''mismatch'' (lower (message entry))
                then r3\<lparr>baseline_mismatches := baseline_mismatches r3 + 1\<rparr> else r3);
          r5 = (if category entry = ''CLIENT_ERROR'' \<and> sublist ''missing'' (lower (message entry))
                then r4\<lparr>player_disappearances := player_disappearances r4 + 1\<rparr> else r4);
          r6 = (if category entry = ''INTERPOLATOR'' \<and> level entry = ''WARN''
                then r5\<lparr>interpolation_warnings := interpolation_warnings r5 + 1\<rparr> else r5);
          r7 = (if category entry = ''SERVER_CHUNK'' \<and> sublist ''changed chunk'' (lower (message entry))
                then r6\<lparr>chunk_changes := chunk_changes r6 + 1\<rparr> else r6)
      in r7)"

definition update_metrics :: "LogEntry \<Rightarrow> AnalysisResult \<Rightarrow> AnalysisResult" where
  "update_metrics entry r = count_events entry (count_level entry r)"

subsection \<open>The issue detector\<close>

text \<open>True division \<^verbatim>\<open>a / b\<close> of two integers.\<close>

definition py_truediv :: "int \<Rightarrow> int \<Rightarrow> py_error + rat" where
  "py_truediv a b = (if b = 0 then Inl ZeroDivisionError else Inr (of_int a / of_int b))"

definition disappearance_issue :: "int \<Rightarrow> string" where
  "disappearance_issue n =
     ''Player disappearance detected '' @ str_int n @ '' times! '' @
     ''This indicates delta compression bugs or interest management issues.''"

definition interpolation_warning :: "int \<Rightarrow> string" where
  "interpolation_warning n =
     ''High interpolation warnings ('' @ str_int n @ ''). '' @
     ''Client may be struggling to keep buffer filled.''"

text \<open>
  The argument \<open>fmt\<close> of the next definitions is the format specification
  \<^verbatim>\<open>:.1f\<close>, the rendering of a float with one decimal, which is not modelled.
\<close>

definition mismatch_warning :: "(rat \<Rightarrow> string) \<Rightarrow> rat \<Rightarrow> string" where
  "mismatch_warning fmt mismatch_rate =
     ''High baseline mismatch rate ('' @ fmt (mismatch_rate * 100) @ ''%). '' @
     ''This is expected for UDP but seems unusually high.''"

definition server_issue :: string where
  "server_issue = ''Server sent 0 snapshots! Server may not be running correctly.''"

definition client_issue :: string where
  "client_issue = ''Client received 0 snapshots! Client may not be connected.''"

text \<open>\<^verbatim>\<open>_detect_issues\<close>; \<open>path\<close> is \<^verbatim>\<open>str(self.log_path)\<close>.\<close>

definition detect_issues ::
  "(rat \<Rightarrow> string) \<Rightarrow> string \<Rightarrow> AnalysisResult \<Rightarrow> py_error + AnalysisResult" where
  "detect_issues fmt path r =
     (let r1 = (if player_disappearances r > 0
                then r\<lparr>critical_issues :=
                        critical_issues r @ [disappearance_issue (player_disappearances r)]\<rparr>
                else r);
          r2 = (if interpolation_warnings r1 > 10
                then r1\<lparr>warnings_list :=
                         warnings_list r1 @ [interpolation_warning (interpolation_warnings r1)]\<rparr>
                else r1)
      in case (if snapshots_received r2 > 0
               then (case py_truediv (baseline_mismatches r2) (snapshots_received r2) of
                       Inl e \<Rightarrow> Inl e
                     | Inr mismatch_rate \<Rightarrow>
                         if mismatch_rate > 1 / 10
                         then Inr (r2\<lparr>warnings_list :=
                                        warnings_list r2 @ [mismatch_warning fmt mismatch_rate]\<rparr>)
                         else Inr r2)
               else Inr r2) of
           Inl e \<Rightarrow> Inl e
         | Inr r3 \<Rightarrow>
            (let r4 = (if snapshots_sent r3 = 0 \<and> sublist ''server'' (lower path)
                       then r3\<lparr>critical_issues := critical_issues r3 @ [server_issue]\<rparr>
                       else r3);
                 r5 = (if snapshots_received r4 = 0 \<and> sublist ''client'' (lower path)
                       then r4\<lparr>critical_issues := critical_issues r4 @ [client_issue]\<rparr>
                       else r4)
             in Inr r5))"

subsection \<open>One pass over a file\<close>

datatype file_content = Unreadable | Lines "string list"

type_synonym filesystem = "string \<rightharpoonup> file_content"

text \<open>\<^verbatim>\<open>open(path, 'r')\<close> followed by the iteration over the lines.\<close>

definition py_open :: "filesystem \<Rightarrow> string \<Rightarrow> py_error + string list" where
  "py_open fs path =
     (case fs path of
        None \<Rightarrow> Inl FileNotFoundError
      | Some Unreadable \<Rightarrow> Inl PermissionError
      | Some (Lines ls) \<Rightarrow> Inr ls)"

text \<open>The body of the loop of \<^verbatim>\<open>LogAnalyzer.parse\<close>.\<close>

definition process_line :: "AnalysisResult \<Rightarrow> string \<Rightarrow> py_error + AnalysisResult" where
  "process_line r line =
     (let r1 = r\<lparr>total_lines := total_lines r + 1\<rparr> in
      case parse_line (strip line) of
        Inl e \<Rightarrow> Inl e
      | Inr None \<Rightarrow> Inr r1
      | Inr (Some entry) \<Rightarrow> Inr (update_metrics entry (r1\<lparr>entries := entries r1 @ [entry]\<rparr>)))"

fun parse_lines :: "AnalysisResult \<Rightarrow> string list \<Rightarrow> py_error + AnalysisResult" where
  "parse_lines r [] = Inr r"
| "parse_lines r (line # rest) =
     (case process_line r line of Inl e \<Rightarrow> Inl e | Inr r' \<Rightarrow> parse_lines r' rest)"

definition set_timing :: "AnalysisResult \<Rightarrow> AnalysisResult" where
  "set_timing r =
     (if entries r \<noteq> []
      then r\<lparr>start_time := timestamp (hd (entries r)), end_time := timestamp (last (entries r))\<rparr>
      else r)"

text \<open>\<^verbatim>\<open>LogAnalyzer(log_path).parse()\<close>; the progress messages are not modelled.\<close>

definition parse :: "(rat \<Rightarrow> string) \<Rightarrow> filesystem \<Rightarrow> string \<Rightarrow> py_error + AnalysisResult" where
  "parse fmt fs log_path =
     (case py_open fs log_path of
        Inl e \<Rightarrow> Inl e
      | Inr ls \<Rightarrow>
          (case parse_lines (new_result log_path) ls of
             Inl e \<Rightarrow> Inl e
           | Inr r \<Rightarrow> detect_issues fmt log_path (set_timing r)))"

text \<open>The loop of \<^verbatim>\<open>main\<close> over the log files: the first exception ends the run.\<close>

fun analyze_files ::
  "(rat \<Rightarrow> string) \<Rightarrow> filesystem \<Rightarrow> string list \<Rightarrow> py_error + AnalysisResult list" where
  "analyze_files fmt fs [] = Inr []"
| "analyze_files fmt fs (log_file # log_files) =
     (case parse fmt fs log_file of
        Inl e \<Rightarrow> Inl e
      | Inr result \<Rightarrow>
          (case analyze_files fmt fs log_files of
             Inl e \<Rightarrow> Inl e
           | Inr results \<Rightarrow> Inr (result # results)))"

subsection \<open>The report\<close>

datatype json =
    JInt int
  | JFloat rat
  | JBool bool
  | JStr string
  | JList "json list"
  | JDict "(string \<times> json) list"

record Summary =
  total_errors :: int
  total_warnings :: int
  total_snapshots_sent :: int
  total_snapshots_received :: int
  total_player_disappearances :: int
  total_interpolation_warnings :: int
  has_critical_issues :: bool
  has_warnings :: bool

text \<open>\<^verbatim>\<open>_calculate_summary\<close>: the dictionary with its eight fixed keys is a record.\<close>

fun summary_loop :: "Summary \<Rightarrow> AnalysisResult list \<Rightarrow> Summary" where
  "summary_loop summary [] = summary"
| "summary_loop summary (result # results) =
     summary_loop
       \<lparr>total_errors = total_errors summary + errors result,
        total_warnings = total_warnings summary + warnings result,
        total_snapshots_sent = total_snapshots_sent summary + snapshots_sent result,
        total_snapshots_received = total_snapshots_received summary + snapshots_received result,
        total_player_disappearances =
          total_player_disappearances summary + player_disappearances result,
        total_interpolation_warnings =
          total_interpolation_warnings summary + interpolation_warnings result,
        has_critical_issues = (if critical_issues result \<noteq> [] then True
                               else has_critical_issues summary),
        has_warnings = (if warnings_list result \<noteq> [] then True else has_warnings summary)\<rparr>
       results"

definition calculate_summary :: "AnalysisResult list \<Rightarrow> Summary" where
  "calculate_summary results =
     summary_loop
       \<lparr>total_errors = 0, total_warnings = 0, total_snapshots_sent = 0,
        total_snapshots_received = 0, total_player_disappearances = 0,
        total_interpolation_warnings = 0, has_critical_issues = False, has_warnings = False\<rparr>
       results"

definition summary_json :: "Summary \<Rightarrow> json" where
  "summary_json summary =
     JDict [(''total_errors'', JInt (total_errors summary)),
            (''total_warnings'', JInt (total_warnings summary)),
            (''total_snapshots_sent'', JInt (total_snapshots_sent summary)),
            (''total_snapshots_received'', JInt (total_snapshots_received summary)),
            (''total_player_disappearances'', JInt (total_player_disappearances summary)),
            (''total_interpolation_warnings'', JInt (total_interpolation_warnings summary)),
            (''has_critical_issues'', JBool (has_critical_issues summary)),
            (''has_warnings'', JBool (has_warnings summary))]"

text \<open>The dictionary that \<^verbatim>\<open>generate_json_report\<close> appends for one file.\<close>

definition file_json :: "AnalysisResult \<Rightarrow> json" where
  "file_json result =
     JDict [(''filename'', JStr (filename result)),
            (''total_lines'', JInt (total_lines result)),
            (''entries'', JInt (int (length (entries result)))),
            (''errors'', JInt (errors result)),
            (''warnings'', JInt (warnings result)),
            (''snapshots_sent'', JInt (snapshots_sent result)),
            (''snapshots_received'', JInt (snapshots_received result)),
            (''packet_loss_events'', JInt (packet_loss_events result)),
            (''baseline_mismatches'', JInt (baseline_mismatches result)),
            (''player_disappearances'', JInt (player_disappearances result)),
            (''interpolation_warnings'', JInt (interpolation_warnings result)),
            (''chunk_changes'', JInt (chunk_changes result)),
            (''critical_issues'', JList (map JStr (critical_issues result))),
            (''warnings_list'', JList (map JStr (warnings_list result))),
            (''duration'', JFloat (end_time result - start_time result))]"

text \<open>
  \<^verbatim>\<open>generate_json_report\<close>: the value \<^verbatim>\<open>report_data\<close> handed to
  \<^verbatim>\<open>json.dump\<close>. The text that \<^verbatim>\<open>json.dump\<close> writes and its parsing are the
  library's and are not modelled: the structure read back is this value.
\<close>

definition generate_json_report :: "AnalysisResult list \<Rightarrow> json" where
  "generate_json_report results =
     JDict [(''files'', JList (map file_json results)),
            (''summary'', summary_json (calculate_summary results))]"

text \<open>Reading a key of a JSON object.\<close>

definition jget :: "string \<Rightarrow> json \<Rightarrow> json option" where
  "jget key j = (case j of JDict kvs \<Rightarrow> map_of kvs key | _ \<Rightarrow> None)"

subsection \<open>The orchestrator's log analysis\<close>

text \<open>
  \<^verbatim>\<open>testing/tools/test_framework.py\<close>. The two metrics dictionaries have fixed keys and
  are records, with the prefixes \<open>sm_\<close> and \<open>cm_\<close> on the keys; the dictionary
  \<^verbatim>\<open>{"error": ...}\<close> returned for a missing file is a constructor of its own, so
  that \<^verbatim>\<open>dict.get(key, default)\<close> yields the default exactly on it.
  \<^verbatim>\<open>tools/test_framework.py\<close> is the same code without the key
  \<^verbatim>\<open>buffer_underruns\<close> and its check.

  The arguments \<open>to_int\<close> and \<open>to_float\<close> are the built-in conversions
  \<^verbatim>\<open>int(s)\<close> and \<^verbatim>\<open>float(s)\<close> on arbitrary text, \<open>None\<close> when they raise; the source
  swallows their exceptions (\<^verbatim>\<open>except: pass\<close>).
\<close>

record ServerMetrics =
  sm_total_snapshots :: int
  sm_avg_snapshot_size :: rat
  sm_total_entities :: int
  sm_chunk_changes :: int
  sm_errors :: "string list"

datatype server_result = ServerError string | ServerOk ServerMetrics

record ClientMetrics =
  cm_client_id :: int
  cm_snapshots_received :: int
  cm_player_disappearances :: int
  cm_interpolation_warnings :: int
  cm_buffer_underruns :: int
  cm_baseline_mismatches :: int
  cm_avg_delay_ms :: rat
  cm_errors :: "string list"

datatype client_result = ClientError string int | ClientOk ClientMetrics

text \<open>\<^verbatim>\<open>s.split(sep)[0]\<close>: the text before the first occurrence of \<open>sep\<close>.\<close>

fun text_before :: "string \<Rightarrow> string \<Rightarrow> string" where
  "text_before sep [] = []"
| "text_before sep (c # cs) = (if prefix sep (c # cs) then [] else c # text_before sep cs)"

text \<open>The text after the first occurrence of \<open>sep\<close>, so that \<^verbatim>\<open>s.split(sep)[1]\<close> is
  \<open>text_before sep (text_after sep s)\<close> when \<open>sep\<close> occurs in \<open>s\<close>.\<close>

fun text_after :: "string \<Rightarrow> string \<Rightarrow> string" where
  "text_after sep [] = []"
| "text_after sep (c # cs) =
     (if prefix sep (c # cs) then drop (length sep) (c # cs) else text_after sep cs)"

text \<open>\<^verbatim>\<open>int(line.split("bytes")[0].split()[-1])\<close> under \<^verbatim>\<open>try\<close>.\<close>

definition snapshot_size :: "(string \<Rightarrow> int option) \<Rightarrow> string \<Rightarrow> int option" where
  "snapshot_size to_int line =
     (case split_ws (text_before ''bytes'' line) of
        [] \<Rightarrow> None
      | tok # toks \<Rightarrow> to_int (last (tok # toks)))"

text \<open>The body of the loop over the lines of the server log, and the loop.\<close>

definition server_step ::
  "(string \<Rightarrow> int option) \<Rightarrow> ServerMetrics \<times> int list \<Rightarrow> string \<Rightarrow> ServerMetrics \<times> int list" where
  "server_step to_int st line =
     (case st of (metrics, snapshot_sizes) \<Rightarrow>
      let m1 = (if sublist ''Snapshot #'' line \<and> sublist ''to peer'' line
                then metrics\<lparr>sm_total_snapshots := sm_total_snapshots metrics + 1\<rparr>
                else metrics);
          sizes1 = (if sublist ''Snapshot #'' line \<and> sublist ''to peer'' line \<and>
                       sublist ''bytes'' line
                    then (case snapshot_size to_int line of
                            None \<Rightarrow> snapshot_sizes
                          | Some sz \<Rightarrow> snapshot_sizes @ [sz])
                    else snapshot_sizes);
          m2 = (if sublist ''moved from chunk'' line
                then m1\<lparr>sm_chunk_changes := sm_chunk_changes m1 + 1\<rparr> else m1);
          m3 = (if sublist ''ERROR'' line \<or> sublist ''WARNING'' line
                then m2\<lparr>sm_errors := sm_errors m2 @ [strip line]\<rparr> else m2)
      in (m3, sizes1))"

fun server_loop ::
  "(string \<Rightarrow> int option) \<Rightarrow> ServerMetrics \<times> int list \<Rightarrow> string list \<Rightarrow> ServerMetrics \<times> int list" where
  "server_loop to_int st [] = st"
| "server_loop to_int st (line # rest) = server_loop to_int (server_step to_int st line) rest"

text \<open>\<^verbatim>\<open>_analyze_server_log\<close>; \<^verbatim>\<open>log_path.exists()\<close> is \<open>fs log_path \<noteq> None\<close>.\<close>

definition analyze_server_log ::
  "(string \<Rightarrow> int option) \<Rightarrow> filesystem \<Rightarrow> string \<Rightarrow> py_error + server_result" where
  "analyze_server_log to_int fs log_path =
     (if fs log_path = None then Inr (ServerError ''Log file not found'')
      else case py_open fs log_path of
             Inl e \<Rightarrow> Inl e
           | Inr ls \<Rightarrow>
               (case server_loop to_int
                       (\<lparr>sm_total_snapshots = 0, sm_avg_snapshot_size = 0, sm_total_entities = 0,
                         sm_chunk_changes = 0, sm_errors = []\<rparr>, []) ls of
                  (metrics, snapshot_sizes) \<Rightarrow>
                    Inr (ServerOk
                      (if snapshot_sizes \<noteq> []
                       then metrics\<lparr>sm_avg_snapshot_size :=
                              of_int (sum_list snapshot_sizes) / of_nat (length snapshot_sizes)\<rparr>
                       else metrics))))"

text \<open>\<^verbatim>\<open>float(line.split("Delay:")[1].split("ms")[0].strip())\<close> under \<^verbatim>\<open>try\<close>.\<close>

definition delay_sample :: "(string \<Rightarrow> rat option) \<Rightarrow> string \<Rightarrow> rat option" where
  "delay_sample to_float line =
     to_float (strip (text_before ''ms'' (text_before ''Delay:'' (text_after ''Delay:'' line))))"

text \<open>The body of the loop over the lines of a client log, and the loop.\<close>

definition client_step ::
  "(string \<Rightarrow> rat option) \<Rightarrow> ClientMetrics \<times> rat list \<Rightarrow> string \<Rightarrow> ClientMetrics \<times> rat list" where
  "client_step to_float st line =
     (case st of (metrics, delays) \<Rightarrow>
      let m1 = (if sublist ''Received snapshot'' line
                then metrics\<lparr>cm_snapshots_received := cm_snapshots_received metrics + 1\<rparr>
                else metrics);
          m2 = (if sublist ''Player entity'' line \<and> sublist ''NOT in snapshot'' line
                then m1\<lparr>cm_player_disappearances := cm_player_disappearances m1 + 1\<rparr> else m1);
          m3 = (if sublist ''INTERPOLATOR'' line \<and> sublist ''WARNING'' line
                then m2\<lparr>cm_interpolation_warnings := cm_interpolation_warnings m2 + 1\<rparr> else m2);
          m4 = (if sublist ''Buffer underrun'' line \<or> sublist ''stutter'' (lower line)
                then m3\<lparr>cm_buffer_underruns := cm_buffer_underruns m3 + 1\<rparr> else m3);
          m5 = (if sublist ''Baseline mismatch'' line
                then m4\<lparr>cm_baseline_mismatches := cm_baseline_mismatches m4 + 1\<rparr> else m4);
          delays1 = (if sublist ''Delay:'' line \<and> sublist ''ms'' line
                     then (case delay_sample to_float line of
                             None \<Rightarrow> delays
                           | Some delay \<Rightarrow> delays @ [delay])
                     else delays);
          m6 = (if sublist ''ERROR'' line
                then m5\<lparr>cm_errors := cm_errors m5 @ [strip line]\<rparr> else m5)
      in (m6, delays1))"

fun client_loop ::
  "(string \<Rightarrow> rat option) \<Rightarrow> ClientMetrics \<times> rat list \<Rightarrow> string list \<Rightarrow> ClientMetrics \<times> rat list" where
  "client_loop to_float st [] = st"
| "client_loop to_float st (line # rest) = client_loop to_float (client_step to_float st line) rest"

text \<open>\<^verbatim>\<open>_analyze_client_log\<close>.\<close>

definition analyze_client_log ::
  "(string \<Rightarrow> rat option) \<Rightarrow> filesystem \<Rightarrow> string \<Rightarrow> int \<Rightarrow> py_error + client_result" where
  "analyze_client_log to_float fs log_path client_id =
     (if fs log_path = None then Inr (ClientError ''Log file not found'' client_id)
      else case py_open fs log_path of
             Inl e \<Rightarrow> Inl e
           | Inr ls \<Rightarrow>
               (case client_loop to_float
                       (\<lparr>cm_client_id = client_id, cm_snapshots_received = 0,
                         cm_player_disappearances = 0, cm_interpolation_warnings = 0,
                         cm_buffer_underruns = 0, cm_baseline_mismatches = 0,
                         cm_avg_delay_ms = 0, cm_errors = []\<rparr>, []) ls of
                  (metrics, delays) \<Rightarrow>
                    Inr (ClientOk
                      (if delays \<noteq> []
                       then metrics\<lparr>cm_avg_delay_ms := sum_list delays / of_nat (length delays)\<rparr>
                       else metrics))))"

text \<open>The paths \<^verbatim>\<open>log_dir / "server.log"\<close> and \<^verbatim>\<open>log_dir / f"client_{i}.log"\<close>.\<close>

definition server_log :: "string \<Rightarrow> string" where
  "server_log log_dir = log_dir @ ''/server.log''"

definition client_log :: "string \<Rightarrow> nat \<Rightarrow> string" where
  "client_log log_dir i = log_dir @ ''/client_'' @ str_nat i @ ''.log''"

text \<open>
  The part \<^verbatim>\<open>report["results"]\<close> of the report of \<^verbatim>\<open>_analyze_logs\<close>; its other keys
  copy the configuration. The second function is the loop over
  \<^verbatim>\<open>range(config.num_clients)\<close>, which analyzes a client log only if it exists.
\<close>

record Results =
  server :: server_result
  clients :: "client_result list"

fun analyze_clients ::
  "(string \<Rightarrow> rat option) \<Rightarrow> filesystem \<Rightarrow> string \<Rightarrow> nat list \<Rightarrow> py_error + client_result list" where
  "analyze_clients to_float fs log_dir [] = Inr []"
| "analyze_clients to_float fs log_dir (i # is) =
     (if fs (client_log log_dir i) \<noteq> None
      then (case analyze_client_log to_float fs (client_log log_dir i) (int i) of
              Inl e \<Rightarrow> Inl e
            | Inr c \<Rightarrow>
                (case analyze_clients to_float fs log_dir is of
                   Inl e \<Rightarrow> Inl e
                 | Inr cs \<Rightarrow> Inr (c # cs)))
      else analyze_clients to_float fs log_dir is)"

definition analyze_logs ::
  "(string \<Rightarrow> int option) \<Rightarrow> (string \<Rightarrow> rat option) \<Rightarrow> filesystem \<Rightarrow> string \<Rightarrow> nat \<Rightarrow>
   py_error + Results" where
  "analyze_logs to_int to_float fs log_dir num_clients =
     (case analyze_server_log to_int fs (server_log log_dir) of
        Inl e \<Rightarrow> Inl e
      | Inr srv \<Rightarrow>
          (case analyze_clients to_float fs log_dir [0 ..< num_clients] of
             Inl e \<Rightarrow> Inl e
           | Inr cs \<Rightarrow> Inr \<lparr>server = srv, clients = cs\<rparr>))"

subsection \<open>The issue checks of the orchestrator's summary\<close>

text \<open>\<^verbatim>\<open>client.get(key, default)\<close> and \<^verbatim>\<open>client['client_id']\<close>.\<close>

definition client_get :: "(ClientMetrics \<Rightarrow> 'a) \<Rightarrow> 'a \<Rightarrow> client_result \<Rightarrow> 'a" where
  "client_get key dflt client =
     (case client of ClientError msg i \<Rightarrow> dflt | ClientOk metrics \<Rightarrow> key metrics)"

definition client_id_of :: "client_result \<Rightarrow> int" where
  "client_id_of client =
     (case client of ClientError msg i \<Rightarrow> i | ClientOk metrics \<Rightarrow> cm_client_id metrics)"

text \<open>Floor division \<^verbatim>\<open>a // b\<close> of two integers.\<close>

definition py_floordiv :: "int \<Rightarrow> int \<Rightarrow> py_error + int" where
  "py_floordiv a b = (if b = 0 then Inl ZeroDivisionError else Inr (a div b))"

text \<open>
  The lines that the section \<^verbatim>\<open>Issues Detected\<close> of \<^verbatim>\<open>_generate_agent_summary\<close>
  writes, without the sign that opens each of them. The first three loops read only
  keys whose \<^verbatim>\<open>get\<close> was positive, hence present.
\<close>

definition disappearance_line :: "client_result \<Rightarrow> string" where
  "disappearance_line client =
     ''**Player Disappearance**: Client '' @ str_int (client_id_of client) @ '' had '' @
     str_int (client_get cm_player_disappearances 0 client) @ '' occurrences''"

definition interpolation_line :: "client_result \<Rightarrow> string" where
  "interpolation_line client =
     ''**High Interpolation Warnings**: Client '' @ str_int (client_id_of client) @ '' had '' @
     str_int (client_get cm_interpolation_warnings 0 client) @ '' warnings''"

definition underrun_line :: "client_result \<Rightarrow> string" where
  "underrun_line client =
     ''**Buffer Underrun**: Client '' @ str_int (client_id_of client) @ '' had '' @
     str_int (client_get cm_buffer_underruns 0 client) @ '' stutters''"

definition mismatch_check :: "client_result \<Rightarrow> py_error + string option" where
  "mismatch_check client =
     (let mismatches = client_get cm_baseline_mismatches 0 client;
          received = client_get cm_snapshots_received 1 client
      in if (of_int mismatches :: rat) > of_int received * (1 / 10)
         then (case py_floordiv (mismatches * 100) received of
                 Inl e \<Rightarrow> Inl e
               | Inr percent \<Rightarrow>
                   Inr (Some (''**High Baseline Mismatches**: Client '' @
                              str_int (client_id_of client) @ '' had '' @ str_int mismatches @
                              '' mismatches out of '' @ str_int received @ '' snapshots ('' @
                              str_int percent @ ''%)'')))
         else Inr None)"

fun mismatch_checks :: "client_result list \<Rightarrow> py_error + string list" where
  "mismatch_checks [] = Inr []"
| "mismatch_checks (client # rest) =
     (case mismatch_check client of
        Inl e \<Rightarrow> Inl e
      | Inr written \<Rightarrow>
          (case mismatch_checks rest of
             Inl e \<Rightarrow> Inl e
           | Inr ls \<Rightarrow> Inr ((case written of None \<Rightarrow> [] | Some l \<Rightarrow> [l]) @ ls)))"

definition issues_detected :: "client_result list \<Rightarrow> py_error + string list" where
  "issues_detected cs =
     (let a = map disappearance_line
                (filter (\<lambda>c. client_get cm_player_disappearances 0 c > 0) cs);
          b = map interpolation_line
                (filter (\<lambda>c. client_get cm_interpolation_warnings 0 c > 10) cs);
          c = map underrun_line
                (filter (\<lambda>c. client_get cm_buffer_underruns 0 c > 0) cs)
      in case mismatch_checks cs of
           Inl e \<Rightarrow> Inl e
         | Inr d \<Rightarrow>
             Inr (a @ b @ c @ d @
                  (if a @ b @ c @ d = [] then [''No major issues detected!''] else [])))"

subsection \<open>The documented line grammar and metadata mapping\<close>

text \<open>
  The next three definitions are not translated from the source: they state, in the
  words of the specification, what a structured line is and which mapping its metadata
  segment denotes. \<open>run_of p w\<close> says that \<open>w\<close> is a non-empty run of characters of the
  class \<open>p\<close>. A structured line is
  \<^verbatim>\<open>[digits.digits] [LEVEL] [category] body\<close>, the three fields separated by
  whitespace, where the body (the message and the optional \<^verbatim>\<open>| key=value ...\<close>
  suffix) is not empty and does not begin with the pipe.
\<close>

definition run_of :: "(char \<Rightarrow> bool) \<Rightarrow> string \<Rightarrow> bool" where
  "run_of p w \<longleftrightarrow> w \<noteq> [] \<and> list_all p w"

definition structured :: "string \<Rightarrow> bool" where
  "structured s \<longleftrightarrow>
     (\<exists>ip fp w1 lv w2 cat w3 body.
        s = ''['' @ ip @ ''.'' @ fp @ '']'' @ w1 @ ''['' @ lv @ '']'' @ w2 @
            ''['' @ cat @ '']'' @ w3 @ body \<and>
        run_of is_digit ip \<and> run_of is_digit fp \<and> run_of is_space w1 \<and>
        run_of is_word lv \<and> run_of is_space w2 \<and> run_of (\<lambda>c. c \<noteq> CHR '']'') cat \<and>
        run_of is_space w3 \<and> body \<noteq> [] \<and> hd body \<noteq> CHR ''|'')"

text \<open>A timestamp token of the form digits, dot, digits.\<close>

definition timestamp_token :: "string \<Rightarrow> bool" where
  "timestamp_token tok \<longleftrightarrow>
     (\<exists>ip fp. tok = ip @ ''.'' @ fp \<and> run_of is_digit ip \<and> run_of is_digit fp)"



subsection \<open>Auxiliary definitions: the pattern read deterministically\<close>

text \<open>
  The definitions of this subsection serve the proofs only. They read the pattern from
  left to right without backtracking where it cannot backtrack, and search explicitly
  where it can; \<open>parse_line_eq\<close> below proves that \<open>parse_entry\<close> computes what
  \<open>parse_line\<close> computes with the backtracking matcher.
\<close>

definition first_of :: "'a list \<Rightarrow> 'a option" where
  "first_of xs = (case xs of [] \<Rightarrow> None | x # rest \<Rightarrow> Some x)"

definition rejects :: "(char \<Rightarrow> bool) \<Rightarrow> regex \<Rightarrow> bool" where
  "rejects p R = (\<forall>g x xs. p x \<longrightarrow> ms R (g, x # xs) = [])"

definition lit :: "char \<Rightarrow> string \<Rightarrow> string option" where
  "lit c s = (case s of [] \<Rightarrow> None | x # xs \<Rightarrow> if x = c then Some xs else None)"

definition run1 :: "(char \<Rightarrow> bool) \<Rightarrow> string \<Rightarrow> (string \<times> string) option" where
  "run1 p s = (if takeWhile p s = [] then None else Some (takeWhile p s, dropWhile p s))"

definition stamp :: "string \<Rightarrow> (string \<times> string \<times> string) option" where
  "stamp s =
     Option.bind (lit CHR ''['' s) (\<lambda>s1.
     Option.bind (run1 is_digit s1) (\<lambda>(ip, s2).
     Option.bind (lit CHR ''.'' s2) (\<lambda>s3.
     Option.bind (run1 is_digit s3) (\<lambda>(fp, s4).
     Option.bind (lit CHR '']'' s4) (\<lambda>s5. Some (ip, fp, s5))))))"

definition token :: "(char \<Rightarrow> bool) \<Rightarrow> string \<Rightarrow> (string \<times> string) option" where
  "token p s =
     Option.bind (lit CHR ''['' s) (\<lambda>s1.
     Option.bind (run1 p s1) (\<lambda>(w, s2).
     Option.bind (lit CHR '']'' s2) (\<lambda>s3. Some (w, s3))))"

definition spaces :: "string \<Rightarrow> string option" where
  "spaces s = map_option snd (run1 is_space s)"

definition header :: "string \<Rightarrow> (string \<times> string \<times> string \<times> string \<times> string) option" where
  "header s =
     Option.bind (stamp s) (\<lambda>(ip, fp, s1).
     Option.bind (spaces s1) (\<lambda>s2.
     Option.bind (token is_word s2) (\<lambda>(lv, s3).
     Option.bind (spaces s3) (\<lambda>s4.
     Option.bind (token (\<lambda>c. c \<noteq> CHR '']'') s4) (\<lambda>(cat, s5). Some (ip, fp, lv, cat, s5))))))"

abbreviation notpipe :: "char \<Rightarrow> bool" where "notpipe \<equiv> (\<lambda>c. c \<noteq> CHR ''|'')"

abbreviation notnl :: "char \<Rightarrow> bool" where "notnl \<equiv> (\<lambda>c. c \<noteq> CHR 0x0A)"

definition TAIL :: regex where
  "TAIL =
     Cat (Rep1 is_space)
    (Cat (Grp 4 (Rep1 (\<lambda>c. c \<noteq> CHR ''|'')))
         (Opt (Cat (Rep0 is_space)
              (Cat (Lit CHR ''|'')
              (Cat (Rep0 is_space)
                   (Grp 5 (Rep1 (\<lambda>c. c \<noteq> CHR 0x0A))))))))"

definition INNER :: regex where
  "INNER = Cat (Rep0 is_space) (Cat (Lit CHR ''|'') (Cat (Rep0 is_space) (Grp 5 (Rep1 notnl))))"

text \<open>
  The two places where the engine backtracks: the whitespace before the message gives
  characters back until a character other than the pipe follows, and the whitespace
  after the pipe gives characters back until a character other than the line feed
  follows.
\<close>

definition body_start :: "string \<Rightarrow> nat option" where
  "body_start s =
     find (\<lambda>k. takeWhile notpipe (drop k s) \<noteq> []) (rev [1 ..< Suc (length (takeWhile is_space s))])"

definition group5 :: "string \<Rightarrow> string option" where
  "group5 v =
     (case find (\<lambda>k. takeWhile notnl (drop k v) \<noteq> [])
                (rev [0 ..< Suc (length (takeWhile is_space v))]) of
        None \<Rightarrow> None
      | Some k \<Rightarrow> Some (takeWhile notnl (drop k v)))"

definition meta_group :: "string \<Rightarrow> string option" where
  "meta_group u = Option.bind (lit CHR ''|'' (dropWhile is_space u)) group5"

definition groups_of :: "string \<Rightarrow> (string \<times> string \<times> string \<times> string \<times> string option) option" where
  "groups_of line =
     Option.bind (header line) (\<lambda>(ip, fp, lv, cat, rest).
     Option.bind (body_start rest) (\<lambda>k.
       Some (ip @ CHR ''.'' # fp, lv, cat, takeWhile notpipe (drop k rest),
             meta_group (dropWhile notpipe (drop k rest)))))"

definition meta_of :: "string \<Rightarrow> (string \<times> string) list" where
  "meta_of u = (case meta_group u of None \<Rightarrow> [] | Some m \<Rightarrow> parse_metadata [] (split_ws m))"

definition parse_entry :: "string \<Rightarrow> LogEntry option" where
  "parse_entry line =
     Option.bind (header line) (\<lambda>(ip, fp, lv, cat, rest).
     Option.bind (body_start rest) (\<lambda>k.
       Some \<lparr>timestamp = of_nat (decimal ip) + of_nat (decimal fp) / 10 ^ length fp,
             level = lv, category = cat,
             message = strip (takeWhile notpipe (drop k rest)),
             metadata = meta_of (dropWhile notpipe (drop k rest)),
             raw_line = line\<rparr>))"

subsection \<open>Auxiliary definitions: the pass as a fold\<close>

text \<open>
  The loop body without the error branch, which \<open>process_line_eq\<close> proves
  unreachable, and the bound that relates the level counters, the structured entries
  and the lines read.
\<close>

definition fold_line :: "AnalysisResult \<Rightarrow> string \<Rightarrow> AnalysisResult" where
  "fold_line r line =
     (case parse_entry (strip line) of
        None \<Rightarrow> r\<lparr>total_lines := total_lines r + 1\<rparr>
      | Some entry \<Rightarrow>
          update_metrics entry (r\<lparr>total_lines := total_lines r + 1, entries := entries r @ [entry]\<rparr>))"

definition counters_bounded :: "AnalysisResult \<Rightarrow> bool" where
  "counters_bounded r \<longleftrightarrow>
     errors r + warnings r + info r + debug r \<le> int (length (entries r)) \<and>
     int (length (entries r)) \<le> total_lines r"

text \<open>
  The structured entries of a list of lines, the number of elements of a list that
  satisfy a predicate, the two lists of issues that \<open>detect_issues\<close> appends, and the
  result of the pass before the issues are detected.
\<close>

definition structured_entries :: "string list \<Rightarrow> LogEntry list" where
  "structured_entries ls = concat (map (\<lambda>l. case parse_entry (strip l) of None \<Rightarrow> [] | Some e \<Rightarrow> [e]) ls)"

definition count_of :: "('a \<Rightarrow> bool) \<Rightarrow> 'a list \<Rightarrow> int" where
  "count_of P xs = int (length (filter P xs))"

definition critical_of :: "string \<Rightarrow> AnalysisResult \<Rightarrow> string list" where
  "critical_of path r =
     (if player_disappearances r > 0 then [disappearance_issue (player_disappearances r)] else []) @
     (if snapshots_sent r = 0 \<and> sublist ''server'' (lower path) then [server_issue] else []) @
     (if snapshots_received r = 0 \<and> sublist ''client'' (lower path) then [client_issue] else [])"

definition warnings_of :: "(rat \<Rightarrow> string) \<Rightarrow> AnalysisResult \<Rightarrow> string list" where
  "warnings_of fmt r =
     (if interpolation_warnings r > 10 then [interpolation_warning (interpolation_warnings r)] else []) @
     (if snapshots_received r > 0 \<and>
         of_int (baseline_mismatches r) / of_int (snapshots_received r) > (1 / 10 :: rat)
      then [mismatch_warning fmt (of_int (baseline_mismatches r) / of_int (snapshots_received r))]
      else [])"

definition accumulated :: "string \<Rightarrow> string list \<Rightarrow> AnalysisResult" where
  "accumulated path ls = set_timing (foldl fold_line (new_result path) ls)"

text \<open>
  A formatter for the places where a concrete one is needed; no result depends on what
  it returns.
\<close>

definition plain_fmt :: "rat \<Rightarrow> string" where
  "plain_fmt x = ''?''"

section \<open>Properties\<close>

subsection \<open>The pattern matches what the deterministic reading matches\<close>

lemma first_of_simps [simp]: "first_of [] = None" "first_of (x # xs) = Some x"
  by (simp_all add: first_of_def)

lemma re_match_first: "re_match r s = map_option fst (first_of (ms r (Map.empty, s)))"
  by (simp add: re_match_def first_of_def split: list.split prod.split)

lemma first_of_append: "first_of (xs @ ys) = (case first_of xs of None \<Rightarrow> first_of ys | Some x \<Rightarrow> Some x)"
  by (cases xs) simp_all

lemma first_of_concat:
  "first_of (concat (map f ks)) =
     (case find (\<lambda>k. f k \<noteq> []) ks of None \<Rightarrow> None | Some k \<Rightarrow> first_of (f k))"
proof (induction ks)
  case Nil
  then show ?case by simp
next
  case (Cons k ks)
  then show ?case by (cases "f k") (simp_all add: first_of_append)
qed

lemma concat_all_empty: "(\<And>x. x \<in> set xs \<Longrightarrow> f x = []) \<Longrightarrow> concat (map f xs) = []"
  by (induction xs) simp_all

lemma concat_greedy:
  assumes "\<And>k. 1 \<le> k \<Longrightarrow> k < n \<Longrightarrow> f k = []"
  shows "concat (map f (rev [1 ..< Suc n])) = (if n = 0 then [] else f n)"
proof (cases n)
  case 0
  then show ?thesis by simp
next
  case (Suc m)
  have "concat (map f (rev [1 ..< Suc m])) = []"
    by (rule concat_all_empty) (use assms Suc in auto)
  with Suc show ?thesis by simp
qed

lemma concat_greedy0:
  assumes "\<And>k. k < n \<Longrightarrow> f k = []"
  shows "concat (map f (rev [0 ..< Suc n])) = f n"
proof -
  have "concat (map f (rev [0 ..< n])) = []"
    by (rule concat_all_empty) (use assms in auto)
  then show ?thesis by simp
qed

lemma rejectsD: "rejects p R \<Longrightarrow> p x \<Longrightarrow> ms R (g, x # xs) = []"
  by (simp only: rejects_def)

lemma rejects_Lit: "\<not> p c \<Longrightarrow> rejects p (Cat (Lit c) R)"
  by (auto simp: rejects_def)

lemma drop_in_run:
  assumes "k < length (takeWhile p s)"
  shows "\<exists>x xs. drop k s = x # xs \<and> p x"
proof -
  have kl: "k < length s" using assms length_takeWhile_le [of p s] by (meson less_le_trans)
  have "p (s ! k)" using assms
    by (metis nth_mem set_takeWhileD takeWhile_nth)
  moreover have "drop k s = s ! k # drop (Suc k) s" using kl by (simp add: Cons_nth_drop_Suc)
  ultimately show ?thesis by blast
qed

lemma rejects_drop:
  assumes "rejects p R" and "k < length (takeWhile p s)"
  shows "ms R (g, drop k s) = []"
proof -
  obtain x xs where d: "drop k s = x # xs" and "p x"
    using drop_in_run [OF assms(2)] by blast
  from assms(1) \<open>p x\<close> have "ms R (g, x # xs) = []"
    by (rule rejectsD)
  then show ?thesis by (simp only: d)
qed

lemma drop_run: "drop (length (takeWhile p s)) s = dropWhile p s"
  by (rule dropWhile_eq_drop [symmetric])

lemma take_run: "take (length (takeWhile p s)) s = takeWhile p s"
  by (rule takeWhile_eq_take [symmetric])

lemma ms_Lit_Cat:
  "ms (Cat (Lit c) R) (g, s) = (case lit c s of None \<Rightarrow> [] | Some s' \<Rightarrow> ms R (g, s'))"
  by (simp add: lit_def split: list.split)

lemma ms_Rep1_Cat:
  assumes "rejects p R"
  shows "ms (Cat (Rep1 p) R) (g, s) = (case run1 p s of None \<Rightarrow> [] | Some (w, s') \<Rightarrow> ms R (g, s'))"
proof -
  let ?n = "length (takeWhile p s)"
  have "ms (Cat (Rep1 p) R) (g, s) = concat (map (\<lambda>k. ms R (g, drop k s)) (rev [1 ..< Suc ?n]))"
    by (simp add: comp_def)
  also have "\<dots> = (if ?n = 0 then [] else ms R (g, drop ?n s))"
    by (rule concat_greedy) (simp add: rejects_drop [of p R, OF assms])
  finally show ?thesis by (simp add: run1_def drop_run)
qed

lemma ms_Rep0_Cat:
  assumes "rejects p R"
  shows "ms (Cat (Rep0 p) R) (g, s) = ms R (g, dropWhile p s)"
proof -
  let ?n = "length (takeWhile p s)"
  have "ms (Cat (Rep0 p) R) (g, s) = concat (map (\<lambda>k. ms R (g, drop k s)) (rev [0 ..< Suc ?n]))"
    by (simp add: comp_def)
  also have "\<dots> = ms R (g, drop ?n s)"
    by (rule concat_greedy0) (simp add: rejects_drop [of p R, OF assms])
  finally show ?thesis by (simp add: drop_run)
qed

lemma ms_Grp_Rep1:
  "ms (Grp i (Rep1 p)) (g, s) =
     map (\<lambda>k. (g(i \<mapsto> take k s), drop k s)) (rev [1 ..< Suc (length (takeWhile p s))])"
proof -
  have "k \<in> set (rev [1 ..< Suc (length (takeWhile p s))]) \<Longrightarrow>
        take (length s - length (drop k s)) s = take k s" for k
    using length_takeWhile_le [of p s] by auto
  then show ?thesis by (simp add: comp_def)
qed

lemma ms_Grp_Rep1_Cat:
  assumes "rejects p R"
  shows "ms (Cat (Grp i (Rep1 p)) R) (g, s) =
           (case run1 p s of None \<Rightarrow> [] | Some (w, s') \<Rightarrow> ms R (g(i \<mapsto> w), s'))"
proof -
  let ?n = "length (takeWhile p s)"
  have "ms (Cat (Grp i (Rep1 p)) R) (g, s) =
          concat (map (\<lambda>k. ms R (g(i \<mapsto> take k s), drop k s)) (rev [1 ..< Suc ?n]))"
    by (simp only: ms.simps(3) ms_Grp_Rep1 map_map comp_def)
  also have "\<dots> = (if ?n = 0 then [] else ms R (g(i \<mapsto> take ?n s), drop ?n s))"
    by (rule concat_greedy) (simp add: rejects_drop [of p R, OF assms])
  finally show ?thesis by (simp add: run1_def drop_run take_run)
qed

declare ms.simps [simp del]

lemma ms_Lit_Cat_Rep1:
  "ms (Cat (Lit c) (Rep1 p)) (g, s) =
     (case lit c s of None \<Rightarrow> []
      | Some s' \<Rightarrow> map (\<lambda>k. (g, drop k s')) (rev [1 ..< Suc (length (takeWhile p s'))]))"
  by (simp add: ms.simps lit_def split: list.split)

lemma ms_number:
  assumes "\<not> p c"
  shows "ms (Cat (Rep1 p) (Cat (Lit c) (Rep1 p))) (g, s) =
     (case run1 p s of None \<Rightarrow> []
      | Some (ip, s1) \<Rightarrow>
         (case lit c s1 of None \<Rightarrow> []
          | Some s2 \<Rightarrow> map (\<lambda>k. (g, drop k s2)) (rev [1 ..< Suc (length (takeWhile p s2))])))"
  by (simp only: ms_Rep1_Cat [OF rejects_Lit [of p c, OF assms]] ms_Lit_Cat_Rep1)

lemma run1_SomeD: "run1 p s = Some (w, s') \<Longrightarrow> s = w @ s' \<and> w = takeWhile p s \<and> s' = dropWhile p s \<and> w \<noteq> []"
  by (auto simp: run1_def split: if_splits)

lemma lit_SomeD: "lit c s = Some s' \<Longrightarrow> s = c # s'"
  by (auto simp: lit_def split: list.splits if_splits)

lemma ms_Grp_Cat:
  "ms (Cat (Grp i N) R) (g, s) =
     concat (map (\<lambda>(g', s'). ms R (g'(i \<mapsto> take (length s - length s') s), s')) (ms N (g, s)))"
proof -
  have "ms (Cat (Grp i N) R) (g, s) =
          concat (map (ms R) (map (\<lambda>(g', s'). (g'(i \<mapsto> take (length s - length s') s), s'))
                     (ms N (g, s))))"
    by (simp only: ms.simps)
  also have "\<dots> = concat (map (\<lambda>(g', s'). ms R (g'(i \<mapsto> take (length s - length s') s), s'))
                     (ms N (g, s)))"
    by (simp only: map_map comp_def split_def fst_conv snd_conv)
  finally show ?thesis .
qed

lemma ms_Grp_number_Cat:
  assumes npc: "\<not> p c" and rej: "rejects p R"
  shows "ms (Cat (Grp i (Cat (Rep1 p) (Cat (Lit c) (Rep1 p)))) R) (g, s) =
     (case run1 p s of None \<Rightarrow> []
      | Some (ip, s1) \<Rightarrow>
         (case lit c s1 of None \<Rightarrow> []
          | Some s2 \<Rightarrow>
             (case run1 p s2 of None \<Rightarrow> []
              | Some (fp, s3) \<Rightarrow> ms R (g(i \<mapsto> ip @ c # fp), s3))))"
proof -
  define N where "N = Cat (Rep1 p) (Cat (Lit c) (Rep1 p))"
  have N: "ms N (g, s) =
     (case run1 p s of None \<Rightarrow> []
      | Some (ip, s1) \<Rightarrow>
         (case lit c s1 of None \<Rightarrow> []
          | Some s2 \<Rightarrow> map (\<lambda>k. (g, drop k s2)) (rev [1 ..< Suc (length (takeWhile p s2))])))"
    unfolding N_def by (rule ms_number [of p c, OF npc])
  have G: "ms (Cat (Grp i N) R) (g, s) =
     concat (map (\<lambda>(g', s'). ms R (g'(i \<mapsto> take (length s - length s') s), s')) (ms N (g, s)))"
    by (rule ms_Grp_Cat)
  show ?thesis
  proof (cases "run1 p s")
    case None
    then show ?thesis unfolding N_def [symmetric] G N by simp
  next
    case (Some a)
    then obtain ip s1 where a: "a = (ip, s1)" by (cases a) auto
    show ?thesis
    proof (cases "lit c s1")
      case None
      with Some a show ?thesis unfolding N_def [symmetric] G N by simp
    next
      case s2: (Some s2)
      from Some a have s: "s = ip @ s1" using run1_SomeD by blast
      from s2 have s1: "s1 = c # s2" by (rule lit_SomeD)
      let ?n = "length (takeWhile p s2)"
      have cap: "take (length s - length (drop k s2)) s = ip @ c # take k s2"
        if "k \<le> length s2" for k
        using that by (simp add: s s1)
      have kle: "k \<in> set (rev [1 ..< Suc ?n]) \<Longrightarrow> k \<le> length s2" for k
        using length_takeWhile_le [of p s2] by auto
      have "ms (Cat (Grp i N) R) (g, s) =
              concat (map (\<lambda>k. ms R (g(i \<mapsto> take (length s - length (drop k s2)) s), drop k s2))
                          (rev [1 ..< Suc ?n]))"
        unfolding G N using Some a s2 by (simp add: comp_def)
      also have "\<dots> = concat (map (\<lambda>k. ms R (g(i \<mapsto> ip @ c # take k s2), drop k s2))
                          (rev [1 ..< Suc ?n]))"
        using kle by (simp only: cap cong: map_cong)
      also have "\<dots> = (if ?n = 0 then [] else ms R (g(i \<mapsto> ip @ c # take ?n s2), drop ?n s2))"
        by (rule concat_greedy) (simp add: rejects_drop [of p R, OF rej])
      finally show ?thesis
        unfolding N_def using Some a s2 by (simp add: run1_def drop_run take_run)
    qed
  qed
qed

lemma not_digit [simp]: "\<not> is_digit CHR ''.''" "\<not> is_digit CHR '']''"
  by (simp_all add: is_digit_def)

lemma not_space [simp]: "\<not> is_space CHR ''[''" "\<not> is_space CHR ''|''"
  by (simp_all add: is_space_def)

lemma not_word [simp]: "\<not> is_word CHR '']''"
  by (simp add: is_word_def)

lemma ms_stamp:
  assumes "rejects is_digit (Cat (Lit CHR '']'') R)"
  shows "ms (Cat (Lit CHR ''['')
          (Cat (Grp i (Cat (Rep1 is_digit) (Cat (Lit CHR ''.'') (Rep1 is_digit))))
          (Cat (Lit CHR '']'') R))) (g, s) =
     (case stamp s of None \<Rightarrow> []
      | Some (ip, fp, s') \<Rightarrow> ms R (g(i \<mapsto> ip @ CHR ''.'' # fp), s'))"
  by (simp add: ms_Lit_Cat ms_Grp_number_Cat [of is_digit "CHR ''.''", OF _ assms] stamp_def
           split: option.split Option.bind_split)

lemma ms_token:
  assumes "\<not> p CHR '']''"
  shows "ms (Cat (Lit CHR ''['') (Cat (Grp i (Rep1 p)) (Cat (Lit CHR '']'') R))) (g, s) =
     (case token p s of None \<Rightarrow> [] | Some (w, s') \<Rightarrow> ms R (g(i \<mapsto> w), s'))"
  by (simp add: ms_Lit_Cat ms_Grp_Rep1_Cat [of p, OF rejects_Lit [of p, OF assms]] token_def
           split: option.split Option.bind_split)

lemma ms_spaces:
  "ms (Cat (Rep1 is_space) (Cat (Lit CHR ''['') R)) (g, s) =
     (case spaces s of None \<Rightarrow> [] | Some s' \<Rightarrow> ms (Cat (Lit CHR ''['') R) (g, s'))"
  by (simp add: ms_Rep1_Cat [of is_space, OF rejects_Lit [of is_space]] spaces_def
           split: option.split)

lemma ms_LOG_PATTERN:
  "ms LOG_PATTERN (g, s) =
     (case header s of None \<Rightarrow> []
      | Some (ip, fp, lv, cat, rest) \<Rightarrow>
          ms TAIL (g(1 \<mapsto> ip @ CHR ''.'' # fp, 2 \<mapsto> lv, 3 \<mapsto> cat), rest))"
  unfolding LOG_PATTERN_def TAIL_def [symmetric] header_def
  by (simp add: ms_stamp [OF rejects_Lit] ms_spaces ms_token
           split: option.split Option.bind_split)

lemma ms_Grp_Rep1_empty: "ms (Grp i (Rep1 p)) (g, s) = [] \<longleftrightarrow> takeWhile p s = []"
  by (cases "takeWhile p s") (simp_all add: ms_Grp_Rep1)

lemma first_of_Grp_Rep1:
  "first_of (ms (Grp i (Rep1 p)) (g, s)) =
     (if takeWhile p s = [] then None else Some (g(i \<mapsto> takeWhile p s), dropWhile p s))"
proof (cases "takeWhile p s = []")
  case True
  then show ?thesis by (simp add: ms_Grp_Rep1)
next
  case False
  then have "Suc 0 \<le> length (takeWhile p s)"
    by (cases "takeWhile p s") simp_all
  then have "rev [1 ..< Suc (length (takeWhile p s))] =
               length (takeWhile p s) # rev [1 ..< length (takeWhile p s)]"
    by simp
  then have "first_of (ms (Grp i (Rep1 p)) (g, s)) =
          Some (g(i \<mapsto> take (length (takeWhile p s)) s), drop (length (takeWhile p s)) s)"
    by (simp add: ms_Grp_Rep1)
  then show ?thesis using False by (simp add: take_run drop_run)
qed

lemma find_SomeD: "find P xs = Some x \<Longrightarrow> P x"
  by (induction xs) (auto split: if_splits)

lemma ms_Rep0_Cat_raw:
  "ms (Cat (Rep0 p) R) (g, s) =
     concat (map (\<lambda>k. ms R (g, drop k s)) (rev [0 ..< Suc (length (takeWhile p s))]))"
  by (simp add: ms.simps comp_def)

lemma ms_Rep1_Cat_raw:
  "ms (Cat (Rep1 p) R) (g, s) =
     concat (map (\<lambda>k. ms R (g, drop k s)) (rev [1 ..< Suc (length (takeWhile p s))]))"
  by (simp add: ms.simps comp_def)

lemma first_meta:
  "map_option fst (first_of (ms (Cat (Rep0 is_space) (Grp 5 (Rep1 notnl))) (g, v))) =
     map_option (\<lambda>m. g(5 \<mapsto> m)) (group5 v)"
  unfolding ms_Rep0_Cat_raw first_of_concat ms_Grp_Rep1_empty group5_def
  by (auto simp add: first_of_Grp_Rep1 split: option.split dest: find_SomeD)

lemma first_INNER:
  "map_option fst (first_of (ms INNER (g, u))) = map_option (\<lambda>m. g(5 \<mapsto> m)) (meta_group u)"
  unfolding INNER_def meta_group_def
  by (simp add: ms_Rep0_Cat [of is_space, OF rejects_Lit [of is_space]] ms_Lit_Cat first_meta
           split: option.split)

lemma first_Opt:
  "map_option fst (first_of (ms (Opt INNER) (g, u))) =
     Some (case meta_group u of None \<Rightarrow> g | Some m \<Rightarrow> g(5 \<mapsto> m))"
proof -
  have "ms (Opt INNER) (g, u) = ms INNER (g, u) @ [(g, u)]" by (simp add: ms.simps)
  then have "map_option fst (first_of (ms (Opt INNER) (g, u))) =
       (case map_option fst (first_of (ms INNER (g, u))) of None \<Rightarrow> Some g | Some x \<Rightarrow> Some x)"
    by (simp add: first_of_append split: option.split)
  then show ?thesis by (simp add: first_INNER split: option.split)
qed

lemma ms_Opt_nonempty: "ms (Opt R) st \<noteq> []"
  by (simp add: ms.simps)

lemma ms_body_raw:
  "ms (Cat (Grp 4 (Rep1 notpipe)) (Opt INNER)) (g, t) =
     concat (map (\<lambda>j. ms (Opt INNER) (g(4 \<mapsto> take j t), drop j t))
                 (rev [1 ..< Suc (length (takeWhile notpipe t))]))"
proof -
  have "ms (Cat (Grp 4 (Rep1 notpipe)) (Opt INNER)) (g, t) =
          concat (map (ms (Opt INNER)) (ms (Grp 4 (Rep1 notpipe)) (g, t)))"
    by (simp only: ms.simps(3))
  then show ?thesis by (simp only: ms_Grp_Rep1 map_map comp_def)
qed

lemma ms_body_empty:
  "ms (Cat (Grp 4 (Rep1 notpipe)) (Opt INNER)) (g, t) = [] \<longleftrightarrow> takeWhile notpipe t = []"
  by (cases "takeWhile notpipe t") (simp_all add: ms_body_raw ms_Opt_nonempty)

lemma find_greedy_first: "n \<noteq> 0 \<Longrightarrow> P n \<Longrightarrow> find P (rev [1 ..< Suc n]) = Some n"
  by (cases n) simp_all

lemma first_body:
  "map_option fst (first_of (ms (Cat (Grp 4 (Rep1 notpipe)) (Opt INNER)) (g, t))) =
     (if takeWhile notpipe t = [] then None
      else Some (case meta_group (dropWhile notpipe t) of
                   None \<Rightarrow> g(4 \<mapsto> takeWhile notpipe t)
                 | Some m \<Rightarrow> g(4 \<mapsto> takeWhile notpipe t, 5 \<mapsto> m)))"
proof (cases "takeWhile notpipe t = []")
  case True
  then show ?thesis using ms_body_empty [of g t] by simp
next
  case False
  let ?n = "length (takeWhile notpipe t)"
  have "find (\<lambda>j. ms (Opt INNER) (g(4 \<mapsto> take j t), drop j t) \<noteq> []) (rev [1 ..< Suc ?n]) = Some ?n"
    using False by (intro find_greedy_first) (simp_all add: ms_Opt_nonempty)
  then have "first_of (ms (Cat (Grp 4 (Rep1 notpipe)) (Opt INNER)) (g, t)) =
        first_of (ms (Opt INNER) (g(4 \<mapsto> take ?n t), drop ?n t))"
    unfolding ms_body_raw first_of_concat by simp
  then show ?thesis using False by (simp add: first_Opt take_run drop_run)
qed

lemma TAIL_alt: "TAIL = Cat (Rep1 is_space) (Cat (Grp 4 (Rep1 notpipe)) (Opt INNER))"
  by (simp add: TAIL_def INNER_def)

lemma first_TAIL:
  "map_option fst (first_of (ms TAIL (g, s))) =
     (case body_start s of None \<Rightarrow> None
      | Some k \<Rightarrow>
          Some (case meta_group (dropWhile notpipe (drop k s)) of
                  None \<Rightarrow> g(4 \<mapsto> takeWhile notpipe (drop k s))
                | Some m \<Rightarrow> g(4 \<mapsto> takeWhile notpipe (drop k s), 5 \<mapsto> m)))"
  unfolding TAIL_alt ms_Rep1_Cat_raw first_of_concat ms_body_empty body_start_def
  by (auto simp add: first_body split: option.split dest: find_SomeD)

lemma re_match_LOG_PATTERN:
  "re_match LOG_PATTERN line =
     map_option (\<lambda>(ts, lv, cat, g4, g5).
        (case g5 of None \<Rightarrow> [1 \<mapsto> ts, 2 \<mapsto> lv, 3 \<mapsto> cat, 4 \<mapsto> g4]
                  | Some m \<Rightarrow> [1 \<mapsto> ts, 2 \<mapsto> lv, 3 \<mapsto> cat, 4 \<mapsto> g4, 5 \<mapsto> m]))
       (groups_of line)"
  unfolding re_match_first ms_LOG_PATTERN groups_of_def
  by (simp add: first_TAIL split: option.split Option.bind_split)

lemma run1_split: "run1 p s = Some (w, s') \<Longrightarrow> s = w @ s'"
  by (auto simp: run1_def split: if_splits)

lemma run1_digits: "run1 p s = Some (w, s') \<Longrightarrow> w \<noteq> [] \<and> list_all p w"
  by (auto simp: run1_def list_all_iff split: if_splits dest: set_takeWhileD)

lemma stamp_SomeD:
  assumes "stamp s = Some (ip, fp, s')"
  shows "s = CHR ''['' # ip @ CHR ''.'' # fp @ CHR '']'' # s' \<and>
         ip \<noteq> [] \<and> list_all is_digit ip \<and> fp \<noteq> [] \<and> list_all is_digit fp"
proof -
  from assms obtain s1 s2 s3 s4 where
    a: "lit CHR ''['' s = Some s1" and b: "run1 is_digit s1 = Some (ip, s2)" and
    c: "lit CHR ''.'' s2 = Some s3" and d: "run1 is_digit s3 = Some (fp, s4)" and
    e: "lit CHR '']'' s4 = Some s'"
    unfolding stamp_def by (auto split: Option.bind_splits)
  have "s = CHR ''['' # s1" "s1 = ip @ s2" "s2 = CHR ''.'' # s3" "s3 = fp @ s4"
       "s4 = CHR '']'' # s'"
    using lit_SomeD [OF a] run1_split [OF b] lit_SomeD [OF c] run1_split [OF d] lit_SomeD [OF e]
    by blast+
  then show ?thesis using run1_digits [OF b] run1_digits [OF d] by simp
qed

lemma token_SomeD:
  assumes "token p s = Some (w, s')"
  shows "s = CHR ''['' # w @ CHR '']'' # s' \<and> w \<noteq> [] \<and> list_all p w"
proof -
  from assms obtain s1 s2 where
    a: "lit CHR ''['' s = Some s1" and b: "run1 p s1 = Some (w, s2)" and
    c: "lit CHR '']'' s2 = Some s'"
    unfolding token_def by (auto split: Option.bind_splits)
  have "s = CHR ''['' # s1" "s1 = w @ s2" "s2 = CHR '']'' # s'"
    using lit_SomeD [OF a] run1_split [OF b] lit_SomeD [OF c] by blast+
  then show ?thesis using run1_digits [OF b] by simp
qed

lemma spaces_SomeD:
  assumes "spaces s = Some s'"
  shows "\<exists>w. s = w @ s' \<and> w \<noteq> [] \<and> list_all is_space w"
proof -
  from assms obtain w where a: "run1 is_space s = Some (w, s')"
    unfolding spaces_def by auto
  show ?thesis using run1_split [OF a] run1_digits [OF a] by blast
qed

lemma py_float_stamp:
  assumes "ip \<noteq> []" "list_all is_digit ip" "fp \<noteq> []" "list_all is_digit fp"
  shows "py_float (ip @ CHR ''.'' # fp) =
           Some (of_nat (decimal ip) + of_nat (decimal fp) / 10 ^ length fp)"
proof -
  have "takeWhile is_digit (ip @ CHR ''.'' # fp) = ip"
    using assms(2) by (simp add: list_all_iff takeWhile_append2)
  moreover have "dropWhile is_digit (ip @ CHR ''.'' # fp) = CHR ''.'' # fp"
    using assms(2) by (simp add: list_all_iff dropWhile_append2)
  ultimately show ?thesis using assms by (simp add: py_float_def)
qed

lemma header_stamp:
  assumes "header s = Some (ip, fp, lv, cat, rest)"
  shows "ip \<noteq> [] \<and> list_all is_digit ip \<and> fp \<noteq> [] \<and> list_all is_digit fp"
proof -
  from assms obtain s1 where "stamp s = Some (ip, fp, s1)"
    unfolding header_def by (auto split: Option.bind_splits)
  then show ?thesis using stamp_SomeD by blast
qed

lemma split_ws_empty [simp]: "split_ws [] = []"
  by (simp add: split_ws_def)

lemma parse_line_eq: "parse_line line = Inr (parse_entry line)"
proof (cases "header line")
  case None
  then show ?thesis
    by (simp add: parse_line_def parse_entry_def re_match_LOG_PATTERN groups_of_def)
next
  case (Some h)
  then obtain ip fp lv cat rest where h: "header line = Some (ip, fp, lv, cat, rest)"
    by (cases h) auto
  note fl = py_float_stamp [of ip fp] header_stamp [OF h]
  show ?thesis
  proof (cases "body_start rest")
    case None
    with h show ?thesis
      by (simp add: parse_line_def parse_entry_def re_match_LOG_PATTERN groups_of_def)
  next
    case (Some k)
    show ?thesis
    proof (cases "meta_group (dropWhile notpipe (drop k rest))")
      case None
      with h Some fl show ?thesis
        by (simp add: parse_line_def parse_entry_def re_match_LOG_PATTERN groups_of_def meta_of_def)
    next
      case m: (Some m)
      with h Some fl show ?thesis
        by (simp add: parse_line_def parse_entry_def re_match_LOG_PATTERN groups_of_def meta_of_def)
    qed
  qed
qed

lemma run1_append:
  assumes "run_of p w" and "\<not> p c"
  shows "run1 p (w @ c # r) = Some (w, c # r)"
proof -
  have "takeWhile p (w @ c # r) = w" "dropWhile p (w @ c # r) = c # r"
    using assms by (simp_all add: run_of_def list_all_iff)
  then show ?thesis using assms(1) by (simp add: run1_def run_of_def)
qed

lemma lit_Cons [simp]: "lit c (c # s) = Some s"
  by (simp add: lit_def)

lemma stamp_line:
  assumes "run_of is_digit ip" and "run_of is_digit fp"
  shows "stamp (CHR ''['' # ip @ CHR ''.'' # fp @ CHR '']'' # r) = Some (ip, fp, r)"
  by (simp add: stamp_def run1_append [OF assms(1)] run1_append [OF assms(2)])

lemma token_line:
  assumes "run_of p w" and "\<not> p CHR '']''"
  shows "token p (CHR ''['' # w @ CHR '']'' # r) = Some (w, r)"
  by (simp add: token_def run1_append [of p w, OF assms])

lemma spaces_line:
  assumes "run_of is_space w"
  shows "spaces (w @ CHR ''['' # r) = Some (CHR ''['' # r)"
  by (simp add: spaces_def run1_append [OF assms])

lemma header_line:
  assumes "run_of is_digit ip" "run_of is_digit fp" "run_of is_space w1" "run_of is_word lv"
    "run_of is_space w2" "run_of (\<lambda>c. c \<noteq> CHR '']'') cat"
  shows "header (CHR ''['' # ip @ CHR ''.'' # fp @ CHR '']'' # w1 @ CHR ''['' # lv @ CHR '']'' #
                 w2 @ CHR ''['' # cat @ CHR '']'' # rest) = Some (ip, fp, lv, cat, rest)"
  by (simp add: header_def stamp_line [OF assms(1,2)] spaces_line [OF assms(3)]
        token_line [of is_word, OF assms(4)] spaces_line [OF assms(5)]
        token_line [of "\<lambda>c. c \<noteq> CHR '']''", OF assms(6)])

lemma header_SomeD:
  assumes "header s = Some (ip, fp, lv, cat, rest)"
  shows "\<exists>w1 w2. s = CHR ''['' # ip @ CHR ''.'' # fp @ CHR '']'' # w1 @ CHR ''['' # lv @
                    CHR '']'' # w2 @ CHR ''['' # cat @ CHR '']'' # rest \<and>
           run_of is_digit ip \<and> run_of is_digit fp \<and> run_of is_space w1 \<and> run_of is_word lv \<and>
           run_of is_space w2 \<and> run_of (\<lambda>c. c \<noteq> CHR '']'') cat"
proof -
  from assms obtain s1 s2 s3 s4 where
    a: "stamp s = Some (ip, fp, s1)" and b: "spaces s1 = Some s2" and
    c: "token is_word s2 = Some (lv, s3)" and d: "spaces s3 = Some s4" and
    e: "token (\<lambda>c. c \<noteq> CHR '']'') s4 = Some (cat, rest)"
    unfolding header_def by (auto split: Option.bind_splits)
  from spaces_SomeD [OF b] obtain w1 where w1: "s1 = w1 @ s2" "run_of is_space w1"
    unfolding run_of_def by blast
  from spaces_SomeD [OF d] obtain w2 where w2: "s3 = w2 @ s4" "run_of is_space w2"
    unfolding run_of_def by blast
  have "s = CHR ''['' # ip @ CHR ''.'' # fp @ CHR '']'' # w1 @ CHR ''['' # lv @
            CHR '']'' # w2 @ CHR ''['' # cat @ CHR '']'' # rest"
    using stamp_SomeD [OF a] token_SomeD [OF c] token_SomeD [OF e] w1(1) w2(1) by simp
  moreover have "run_of is_digit ip" "run_of is_digit fp" "run_of is_word lv"
    "run_of (\<lambda>c. c \<noteq> CHR '']'') cat"
    using stamp_SomeD [OF a] token_SomeD [OF c] token_SomeD [OF e] by (simp_all add: run_of_def)
  ultimately show ?thesis using w1(2) w2(2) by blast
qed




lemma dropWhile_all: "list_all p s \<Longrightarrow> dropWhile p s = []"
  by (induction s) simp_all

lemma strip_spaces: "list_all is_space s \<Longrightarrow> strip s = []"
  by (simp add: strip_def dropWhile_all)

lemma strip_append_spaces: "list_all is_space w \<Longrightarrow> strip (w @ s) = strip s"
  by (simp add: strip_def list_all_iff dropWhile_append2)

lemma is_space_notpipe: "is_space c \<Longrightarrow> c \<noteq> CHR ''|''"
  by auto

lemma is_space_nl [simp]: "is_space (CHR 0x0A)"
  by (simp add: is_space_def)

lemma body_start_line:
  assumes w: "run_of is_space w" and b: "body \<noteq> []" "hd body \<noteq> CHR ''|''"
  shows "\<exists>k. body_start (w @ body) = Some k \<and>
             strip (takeWhile notpipe (drop k (w @ body))) = strip (takeWhile notpipe body) \<and>
             dropWhile notpipe (drop k (w @ body)) = dropWhile notpipe body"
proof -
  define s where "s = w @ body"
  define v where "v = takeWhile is_space body"
  define t where "t = dropWhile is_space body"
  define n where "n = length (takeWhile is_space s)"
  from w have wsp: "\<And>x. x \<in> set w \<Longrightarrow> is_space x" and wne: "w \<noteq> []"
    by (simp_all add: run_of_def list_all_iff)
  have tw: "takeWhile is_space s = w @ v"
    unfolding s_def v_def using wsp by (simp add: takeWhile_append2)
  have n: "n = length w + length v" by (simp add: n_def tw)
  have dn: "drop n s = t"
    unfolding n_def t_def drop_run unfolding s_def using wsp by (simp add: dropWhile_append2)
  have body: "body = v @ t" by (simp add: v_def t_def)
  have vsp: "list_all is_space v"
    unfolding v_def by (auto simp: list_all_iff dest: set_takeWhileD)
  have vnp: "\<And>x. x \<in> set v \<Longrightarrow> x \<noteq> CHR ''|''"
    unfolding v_def by (auto dest: set_takeWhileD)
  have tk: "takeWhile notpipe body = v @ takeWhile notpipe t"
    unfolding body by (rule takeWhile_append2) (rule vnp)
  have dr: "dropWhile notpipe body = dropWhile notpipe t"
    unfolding body by (rule dropWhile_append2) (rule vnp)
  have n1: "Suc 0 \<le> n" using wne n by (cases w) simp_all
  then have rv: "rev [1 ..< Suc n] = n # rev [1 ..< n]" by simp
  have bs: "body_start s = find (\<lambda>k. takeWhile notpipe (drop k s) \<noteq> []) (rev [1 ..< Suc n])"
    by (simp add: body_start_def n_def)
  show ?thesis
  proof (cases "takeWhile notpipe t = []")
    case False
    then have "body_start s = Some n"
      unfolding bs rv by (simp add: dn)
    moreover have "strip (takeWhile notpipe (drop n s)) = strip (takeWhile notpipe body)"
      by (simp only: dn tk strip_append_spaces [OF vsp])
    moreover have "dropWhile notpipe (drop n s) = dropWhile notpipe body"
      by (simp only: dn dr)
    ultimately show ?thesis unfolding s_def by blast
  next
    case True
    then have t: "t = [] \<or> hd t = CHR ''|''"
      by (cases t) (auto split: if_splits)
    have vne: "v \<noteq> []"
    proof
      assume "v = []"
      then have "body = t" using body by simp
      with t b show False by auto
    qed
    have drt: "dropWhile notpipe t = t" using True by (cases t) (auto split: if_splits)
    define c where "c = last v"
    have csp: "is_space c" unfolding c_def using vne vsp
      by (metis last_in_set list_all_iff)
    have n2: "Suc (Suc 0) \<le> n" using wne vne n
      by (cases w; cases v) simp_all
    then have rv2: "rev [1 ..< n] = (n - 1) # rev [1 ..< n - 1]"
      by (cases n) simp_all
    have "v = butlast v @ [c]" using vne by (simp add: c_def)
    then have "s = (w @ butlast v) @ c # t"
      unfolding s_def body by (metis append.assoc append_Cons append_Nil)
    moreover have "length (w @ butlast v) = n - 1" using n vne by (cases v) simp_all
    ultimately have dn1: "drop (n - 1) s = c # t"
      by (metis append_eq_conv_conj)
    have tk1: "takeWhile notpipe (c # t) = [c]"
      using csp True by (auto dest: is_space_notpipe)
    have dr1: "dropWhile notpipe (c # t) = t"
      using csp drt by (auto dest: is_space_notpipe)
    have P: "takeWhile notpipe (drop (n - 1) s) \<noteq> []" by (simp only: dn1 tk1) simp
    have NP: "takeWhile notpipe (drop n s) = []" by (simp only: dn True)
    have "body_start s = Some (n - 1)"
      unfolding bs rv rv2 using P NP by simp
    moreover have "strip (takeWhile notpipe (drop (n - 1) s)) = strip (takeWhile notpipe body)"
      unfolding dn1 tk1 tk True using csp vsp by (simp add: strip_spaces)
    moreover have "dropWhile notpipe (drop (n - 1) s) = dropWhile notpipe body"
      unfolding dn1 dr1 dr drt ..
    ultimately show ?thesis unfolding s_def by blast
  qed
qed

lemma find_Some_set: "find P xs = Some x \<Longrightarrow> x \<in> set xs"
  by (induction xs) (auto split: if_splits)

lemma body_start_SomeD:
  assumes "body_start s = Some k"
  shows "run_of is_space (take k s) \<and> drop k s \<noteq> [] \<and> hd (drop k s) \<noteq> CHR ''|''"
proof -
  let ?n = "length (takeWhile is_space s)"
  from assms have P: "takeWhile notpipe (drop k s) \<noteq> []" and k: "k \<in> set (rev [1 ..< Suc ?n])"
    unfolding body_start_def by (blast dest: find_SomeD find_Some_set)+
  from k have k1: "1 \<le> k" "k \<le> ?n" by auto
  have "take k s = take k (takeWhile is_space s)"
    using k1 by (metis take_run min.absorb2 take_take min.commute)
  then have "list_all is_space (take k s)"
    by (metis in_set_takeD list_all_iff set_takeWhileD)
  moreover have "take k s \<noteq> []" using k1 length_takeWhile_le [of is_space s] by auto
  moreover have "drop k s \<noteq> [] \<and> hd (drop k s) \<noteq> CHR ''|''"
    using P by (cases "drop k s") (auto split: if_splits)
  ultimately show ?thesis by (simp add: run_of_def)
qed

lemma parse_entry_structured: "parse_entry s \<noteq> None \<longleftrightarrow> structured s"
proof
  assume "parse_entry s \<noteq> None"
  then obtain ip fp lv cat rest k where
    h: "header s = Some (ip, fp, lv, cat, rest)" and k: "body_start rest = Some k"
    unfolding parse_entry_def by (auto split: Option.bind_splits)
  from header_SomeD [OF h] obtain w1 w2 where
    s: "s = CHR ''['' # ip @ CHR ''.'' # fp @ CHR '']'' # w1 @ CHR ''['' # lv @
            CHR '']'' # w2 @ CHR ''['' # cat @ CHR '']'' # rest" and
    wf: "run_of is_digit ip" "run_of is_digit fp" "run_of is_space w1" "run_of is_word lv"
        "run_of is_space w2" "run_of (\<lambda>c. c \<noteq> CHR '']'') cat"
    by blast
  have "s = ''['' @ ip @ ''.'' @ fp @ '']'' @ w1 @ ''['' @ lv @ '']'' @ w2 @
            ''['' @ cat @ '']'' @ take k rest @ drop k rest"
    using s by simp
  then show "structured s"
    unfolding structured_def using wf body_start_SomeD [OF k] by blast
next
  assume "structured s"
  then obtain ip fp w1 lv w2 cat w3 body where
    s: "s = ''['' @ ip @ ''.'' @ fp @ '']'' @ w1 @ ''['' @ lv @ '']'' @ w2 @
            ''['' @ cat @ '']'' @ w3 @ body" and
    wf: "run_of is_digit ip" "run_of is_digit fp" "run_of is_space w1" "run_of is_word lv"
        "run_of is_space w2" "run_of (\<lambda>c. c \<noteq> CHR '']'') cat" and
    b: "run_of is_space w3" "body \<noteq> []" "hd body \<noteq> CHR ''|''"
    unfolding structured_def by blast
  have h: "header s = Some (ip, fp, lv, cat, w3 @ body)"
    unfolding s using header_line [OF wf] by simp
  from body_start_line [OF b] obtain k where "body_start (w3 @ body) = Some k" by blast
  with h show "parse_entry s \<noteq> None" by (simp add: parse_entry_def)
qed


lemma parse_metadata_Nil [simp]: "parse_metadata m [] = m"
  by simp

lemma meta_of_Nil: "meta_of [] = []"
  by (simp add: meta_of_def meta_group_def lit_def)








subsection \<open>The pass never raises and keeps its counters bounded\<close>

lemma process_line_eq: "process_line r line = Inr (fold_line r line)"
  by (simp add: process_line_def fold_line_def parse_line_eq split: option.split)

lemma parse_lines_eq: "parse_lines r ls = Inr (foldl fold_line r ls)"
  by (induction ls arbitrary: r) (simp_all add: process_line_eq)

lemma count_events_levels [simp]:
  "errors (count_events e r) = errors r" "warnings (count_events e r) = warnings r"
  "info (count_events e r) = info r" "debug (count_events e r) = debug r"
  "entries (count_events e r) = entries r" "total_lines (count_events e r) = total_lines r"
  by (simp_all add: count_events_def Let_def)

lemma count_level_fields [simp]:
  "entries (count_level e r) = entries r" "total_lines (count_level e r) = total_lines r"
  by (simp_all add: count_level_def)

lemma update_metrics_fields [simp]:
  "entries (update_metrics e r) = entries r" "total_lines (update_metrics e r) = total_lines r"
  by (simp_all add: update_metrics_def)

lemma level_sum_update:
  "errors (update_metrics e r) + warnings (update_metrics e r) + info (update_metrics e r) +
   debug (update_metrics e r) =
   errors r + warnings r + info r + debug r +
   (if level e \<in> {''ERROR'', ''WARN'', ''INFO'', ''DEBUG''} then 1 else 0)"
  by (simp add: update_metrics_def count_level_def)

lemma level_monotone:
  "errors r \<le> errors (update_metrics e r)" "warnings r \<le> warnings (update_metrics e r)"
  "info r \<le> info (update_metrics e r)" "debug r \<le> debug (update_metrics e r)"
  by (simp_all add: update_metrics_def count_level_def)

lemma bounded_bump: "counters_bounded r \<Longrightarrow> counters_bounded (r\<lparr>total_lines := total_lines r + 1\<rparr>)"
  by (simp add: counters_bounded_def)

lemma bounded_append:
  "counters_bounded r \<Longrightarrow>
   counters_bounded (r\<lparr>total_lines := total_lines r + 1, entries := entries r @ [e]\<rparr>)"
  by (simp add: counters_bounded_def)

lemma bounded_update:
  "counters_bounded r \<Longrightarrow>
   counters_bounded (update_metrics e (r\<lparr>total_lines := total_lines r + 1, entries := entries r @ [e]\<rparr>))"
  unfolding counters_bounded_def level_sum_update by simp

lemma bounded_fold_line: "counters_bounded r \<Longrightarrow> counters_bounded (fold_line r line)"
  unfolding fold_line_def by (simp add: bounded_bump bounded_update split: option.split)

lemma bounded_foldl: "counters_bounded r \<Longrightarrow> counters_bounded (foldl fold_line r ls)"
  by (induction ls arbitrary: r) (simp_all add: bounded_fold_line)

lemma bounded_new: "counters_bounded (new_result name)"
  by (simp add: counters_bounded_def new_result_def)

subsection \<open>Structured and unstructured lines\<close>

lemma parse_entry_unstructured: "\<not> structured s \<Longrightarrow> parse_entry s = None"
  using parse_entry_structured [of s] by blast

lemma takeWhile_until: "c \<notin> set u \<Longrightarrow> takeWhile (\<lambda>z. z \<noteq> c) (u @ c # v) = u"
  by (induction u) auto

lemma first_occurrence:
  assumes "c \<notin> set a" and "c \<notin> set b" and "a @ c # x = b @ c # y"
  shows "a = b"
proof -
  have "a = takeWhile (\<lambda>z. z \<noteq> c) (a @ c # x)"
    by (rule takeWhile_until [OF assms(1), symmetric])
  also have "\<dots> = takeWhile (\<lambda>z. z \<noteq> c) (b @ c # y)"
    by (simp only: assms(3))
  also have "\<dots> = b"
    by (rule takeWhile_until [OF assms(2)])
  finally show ?thesis .
qed

lemma digit_not_bracket: "run_of is_digit w \<Longrightarrow> CHR '']'' \<notin> set w"
  by (auto simp: run_of_def list_all_iff)

lemma malformed_timestamp:
  assumes "CHR '']'' \<notin> set tok" and "\<not> timestamp_token tok"
  shows "\<not> structured (''['' @ tok @ '']'' @ rest)"
proof
  assume "structured (''['' @ tok @ '']'' @ rest)"
  then obtain ip fp more where
    eq: "''['' @ tok @ '']'' @ rest = ''['' @ ip @ ''.'' @ fp @ '']'' @ more" and
    wf: "run_of is_digit ip" "run_of is_digit fp"
    unfolding structured_def by blast
  have nb: "CHR '']'' \<notin> set (ip @ ''.'' @ fp)"
    using digit_not_bracket [OF wf(1)] digit_not_bracket [OF wf(2)] by simp
  from eq have eq': "tok @ CHR '']'' # rest = (ip @ ''.'' @ fp) @ CHR '']'' # more" by simp
  have "tok = ip @ ''.'' @ fp"
    by (rule first_occurrence [OF assms(1) nb eq'])
  with wf assms(2) show False unfolding timestamp_token_def by blast
qed

lemma header_None_entry: "header s = None \<Longrightarrow> parse_entry s = None"
  by (simp add: parse_entry_def)

lemma strip_ex1: "strip ''[12] [INFO] [NET] ready'' = ''[12] [INFO] [NET] ready''"
  by code_simp

lemma header_ex1: "header ''[12] [INFO] [NET] ready'' = None"
  by code_simp

lemma parse_entry_line:
  assumes wf: "run_of is_digit ip" "run_of is_digit fp" "run_of is_space w1" "run_of is_word lv"
        "run_of is_space w2" "run_of (\<lambda>c. c \<noteq> CHR '']'') cat"
    and b: "run_of is_space w3" "body \<noteq> []" "hd body \<noteq> CHR ''|''"
    and line: "line = ''['' @ ip @ ''.'' @ fp @ '']'' @ w1 @ ''['' @ lv @ '']'' @ w2 @
                      ''['' @ cat @ '']'' @ w3 @ body"
  shows "parse_entry line =
           Some \<lparr>timestamp = of_nat (decimal ip) + of_nat (decimal fp) / 10 ^ length fp,
                 level = lv, category = cat,
                 message = strip (takeWhile notpipe body),
                 metadata = meta_of (dropWhile notpipe body),
                 raw_line = line\<rparr>"
proof -
  have h: "header line = Some (ip, fp, lv, cat, w3 @ body)"
    unfolding line using header_line [OF wf] by simp
  from body_start_line [OF b] obtain k where
    k: "body_start (w3 @ body) = Some k"
       "strip (takeWhile notpipe (drop k (w3 @ body))) = strip (takeWhile notpipe body)"
       "dropWhile notpipe (drop k (w3 @ body)) = dropWhile notpipe body"
    by blast
  show ?thesis unfolding parse_entry_def h by (simp add: k del: drop_append)
qed

lemma no_dot_token: "CHR ''.'' \<notin> set tok \<Longrightarrow> \<not> timestamp_token tok"
  unfolding timestamp_token_def by auto



lemma takeWhile_whole: "c \<notin> set u \<Longrightarrow> takeWhile (\<lambda>z. z \<noteq> c) u = u"
  by (induction u) auto

lemma dropWhile_whole: "c \<notin> set u \<Longrightarrow> dropWhile (\<lambda>z. z \<noteq> c) u = []"
  by (induction u) auto

subsection \<open>The counters count the structured entries\<close>

lemma detect_issues_eq:
  "detect_issues fmt path r =
     Inr (r\<lparr>critical_issues := critical_issues r @ critical_of path r,
            warnings_list := warnings_list r @ warnings_of fmt r\<rparr>)"
  by (simp add: detect_issues_def py_truediv_def critical_of_def warnings_of_def Let_def)

lemma parse_readable:
  assumes "fs path = Some (Lines ls)"
  shows "parse fmt fs path =
           Inr ((accumulated path ls)
                  \<lparr>critical_issues := critical_issues (accumulated path ls) @
                                        critical_of path (accumulated path ls),
                   warnings_list := warnings_list (accumulated path ls) @
                                      warnings_of fmt (accumulated path ls)\<rparr>)"
  using assms by (simp add: parse_def py_open_def parse_lines_eq detect_issues_eq accumulated_def)

lemma parse_missing: "fs path = None \<Longrightarrow> parse fmt fs path = Inl FileNotFoundError"
  by (simp add: parse_def py_open_def)

lemma parse_unreadable: "fs path = Some Unreadable \<Longrightarrow> parse fmt fs path = Inl PermissionError"
  by (simp add: parse_def py_open_def)

lemma parse_InrD:
  assumes "parse fmt fs path = Inr r"
  shows "\<exists>ls. fs path = Some (Lines ls) \<and>
              r = (accumulated path ls)
                  \<lparr>critical_issues := critical_issues (accumulated path ls) @
                                        critical_of path (accumulated path ls),
                   warnings_list := warnings_list (accumulated path ls) @
                                      warnings_of fmt (accumulated path ls)\<rparr>"
proof (cases "fs path")
  case None
  with assms show ?thesis by (simp add: parse_missing)
next
  case (Some f)
  show ?thesis
  proof (cases f)
    case Unreadable
    with Some assms show ?thesis by (simp add: parse_unreadable)
  next
    case (Lines ls)
    with Some assms parse_readable [of fs path ls fmt] show ?thesis by simp
  qed
qed

lemma count_of_simps [simp]:
  "count_of P [] = 0"
  "count_of P (x # xs) = (if P x then 1 else 0) + count_of P xs"
  "count_of P (xs @ ys) = count_of P xs + count_of P ys"
  by (simp_all add: count_of_def)

lemma count_of_replicate: "count_of P (replicate n x) = (if P x then int n else 0)"
  by (simp add: count_of_def)

lemma structured_entries_simps [simp]:
  "structured_entries [] = []"
  "structured_entries (xs @ ys) = structured_entries xs @ structured_entries ys"
  by (simp_all add: structured_entries_def)

lemma structured_entries_Cons:
  "structured_entries (l # ls) =
     (case parse_entry (strip l) of None \<Rightarrow> [] | Some e \<Rightarrow> [e]) @ structured_entries ls"
  by (simp add: structured_entries_def)

lemma structured_entries_replicate_Some:
  "parse_entry (strip l) = Some e \<Longrightarrow> structured_entries (replicate n l) = replicate n e"
  by (induction n) (simp_all add: structured_entries_Cons)

lemma structured_entries_replicate_None:
  "parse_entry (strip l) = None \<Longrightarrow> structured_entries (replicate n l) = []"
  by (induction n) (simp_all add: structured_entries_Cons)

lemma update_metrics_errors:
  "errors (update_metrics e r) = errors r + (if level e = ''ERROR'' then 1 else 0)"
  by (simp add: update_metrics_def count_level_def)

lemma count_level_events [simp]:
  "snapshots_sent (count_level e r) = snapshots_sent r"
  "snapshots_received (count_level e r) = snapshots_received r"
  "baseline_mismatches (count_level e r) = baseline_mismatches r"
  "player_disappearances (count_level e r) = player_disappearances r"
  "interpolation_warnings (count_level e r) = interpolation_warnings r"
  "critical_issues (count_level e r) = critical_issues r"
  "warnings_list (count_level e r) = warnings_list r"
  by (simp_all add: count_level_def)

lemma update_metrics_events:
  "snapshots_sent (update_metrics e r) =
     snapshots_sent r + (if category e = ''SERVER_SNAPSHOT'' then 1 else 0)"
  "snapshots_received (update_metrics e r) =
     snapshots_received r + (if category e = ''CLIENT_SNAPSHOT'' then 1 else 0)"
  "baseline_mismatches (update_metrics e r) =
     baseline_mismatches r +
     (if category e = ''CLIENT_DELTA'' \<and> sublist ''mismatch'' (lower (message e)) then 1 else 0)"
  "player_disappearances (update_metrics e r) =
     player_disappearances r +
     (if category e = ''CLIENT_ERROR'' \<and> sublist ''missing'' (lower (message e)) then 1 else 0)"
  "interpolation_warnings (update_metrics e r) =
     interpolation_warnings r +
     (if category e = ''INTERPOLATOR'' \<and> level e = ''WARN'' then 1 else 0)"
  "critical_issues (update_metrics e r) = critical_issues r"
  "warnings_list (update_metrics e r) = warnings_list r"
  by (simp_all add: update_metrics_def count_events_def Let_def)

lemma fold_line_fields:
  "entries (fold_line r l) = entries r @ structured_entries [l]"
  "total_lines (fold_line r l) = total_lines r + 1"
  "errors (fold_line r l) = errors r + count_of (\<lambda>e. level e = ''ERROR'') (structured_entries [l])"
  "snapshots_sent (fold_line r l) =
     snapshots_sent r + count_of (\<lambda>e. category e = ''SERVER_SNAPSHOT'') (structured_entries [l])"
  "snapshots_received (fold_line r l) =
     snapshots_received r + count_of (\<lambda>e. category e = ''CLIENT_SNAPSHOT'') (structured_entries [l])"
  "baseline_mismatches (fold_line r l) =
     baseline_mismatches r +
     count_of (\<lambda>e. category e = ''CLIENT_DELTA'' \<and> sublist ''mismatch'' (lower (message e)))
       (structured_entries [l])"
  "player_disappearances (fold_line r l) =
     player_disappearances r +
     count_of (\<lambda>e. category e = ''CLIENT_ERROR'' \<and> sublist ''missing'' (lower (message e)))
       (structured_entries [l])"
  "interpolation_warnings (fold_line r l) =
     interpolation_warnings r +
     count_of (\<lambda>e. category e = ''INTERPOLATOR'' \<and> level e = ''WARN'') (structured_entries [l])"
  "critical_issues (fold_line r l) = critical_issues r"
  "warnings_list (fold_line r l) = warnings_list r"
  by (simp_all add: fold_line_def structured_entries_Cons update_metrics_errors update_metrics_events
        split: option.split)

lemma foldl_fold_line_fields:
  "entries (foldl fold_line r ls) = entries r @ structured_entries ls"
  "total_lines (foldl fold_line r ls) = total_lines r + int (length ls)"
  "errors (foldl fold_line r ls) =
     errors r + count_of (\<lambda>e. level e = ''ERROR'') (structured_entries ls)"
  "snapshots_sent (foldl fold_line r ls) =
     snapshots_sent r + count_of (\<lambda>e. category e = ''SERVER_SNAPSHOT'') (structured_entries ls)"
  "snapshots_received (foldl fold_line r ls) =
     snapshots_received r + count_of (\<lambda>e. category e = ''CLIENT_SNAPSHOT'') (structured_entries ls)"
  "baseline_mismatches (foldl fold_line r ls) =
     baseline_mismatches r +
     count_of (\<lambda>e. category e = ''CLIENT_DELTA'' \<and> sublist ''mismatch'' (lower (message e)))
       (structured_entries ls)"
  "player_disappearances (foldl fold_line r ls) =
     player_disappearances r +
     count_of (\<lambda>e. category e = ''CLIENT_ERROR'' \<and> sublist ''missing'' (lower (message e)))
       (structured_entries ls)"
  "interpolation_warnings (foldl fold_line r ls) =
     interpolation_warnings r +
     count_of (\<lambda>e. category e = ''INTERPOLATOR'' \<and> level e = ''WARN'') (structured_entries ls)"
  "critical_issues (foldl fold_line r ls) = critical_issues r"
  "warnings_list (foldl fold_line r ls) = warnings_list r"
proof (induction ls arbitrary: r)
  case Nil
  {
    case 1 show ?case by simp next
    case 2 show ?case by simp next
    case 3 show ?case by simp next
    case 4 show ?case by simp next
    case 5 show ?case by simp next
    case 6 show ?case by simp next
    case 7 show ?case by simp next
    case 8 show ?case by simp next
    case 9 show ?case by simp next
    case 10 show ?case by simp
  }
next
  case (Cons l ls)
  have se: "structured_entries (l # ls) = structured_entries [l] @ structured_entries ls"
    by (simp add: structured_entries_def)
  {
    case 1 show ?case by (simp only: foldl_Cons Cons.IH(1) fold_line_fields se append_assoc) next
    case 2 show ?case by (simp add: Cons.IH(2) fold_line_fields) next
    case 3 show ?case by (simp only: foldl_Cons Cons.IH(3) fold_line_fields se count_of_simps(3) add.assoc) next
    case 4 show ?case by (simp only: foldl_Cons Cons.IH(4) fold_line_fields se count_of_simps(3) add.assoc) next
    case 5 show ?case by (simp only: foldl_Cons Cons.IH(5) fold_line_fields se count_of_simps(3) add.assoc) next
    case 6 show ?case by (simp only: foldl_Cons Cons.IH(6) fold_line_fields se count_of_simps(3) add.assoc) next
    case 7 show ?case by (simp only: foldl_Cons Cons.IH(7) fold_line_fields se count_of_simps(3) add.assoc) next
    case 8 show ?case by (simp only: foldl_Cons Cons.IH(8) fold_line_fields se count_of_simps(3) add.assoc) next
    case 9 show ?case by (simp only: foldl_Cons Cons.IH(9) fold_line_fields) next
    case 10 show ?case by (simp only: foldl_Cons Cons.IH(10) fold_line_fields)
  }
qed

lemma set_timing_fields [simp]:
  "entries (set_timing r) = entries r" "total_lines (set_timing r) = total_lines r"
  "errors (set_timing r) = errors r" "snapshots_sent (set_timing r) = snapshots_sent r"
  "snapshots_received (set_timing r) = snapshots_received r"
  "baseline_mismatches (set_timing r) = baseline_mismatches r"
  "player_disappearances (set_timing r) = player_disappearances r"
  "interpolation_warnings (set_timing r) = interpolation_warnings r"
  "critical_issues (set_timing r) = critical_issues r"
  "warnings_list (set_timing r) = warnings_list r"
  by (simp_all add: set_timing_def)

lemma accumulated_fields:
  "entries (accumulated path ls) = structured_entries ls"
  "total_lines (accumulated path ls) = int (length ls)"
  "errors (accumulated path ls) = count_of (\<lambda>e. level e = ''ERROR'') (structured_entries ls)"
  "snapshots_sent (accumulated path ls) =
     count_of (\<lambda>e. category e = ''SERVER_SNAPSHOT'') (structured_entries ls)"
  "snapshots_received (accumulated path ls) =
     count_of (\<lambda>e. category e = ''CLIENT_SNAPSHOT'') (structured_entries ls)"
  "baseline_mismatches (accumulated path ls) =
     count_of (\<lambda>e. category e = ''CLIENT_DELTA'' \<and> sublist ''mismatch'' (lower (message e)))
       (structured_entries ls)"
  "player_disappearances (accumulated path ls) =
     count_of (\<lambda>e. category e = ''CLIENT_ERROR'' \<and> sublist ''missing'' (lower (message e)))
       (structured_entries ls)"
  "interpolation_warnings (accumulated path ls) =
     count_of (\<lambda>e. category e = ''INTERPOLATOR'' \<and> level e = ''WARN'') (structured_entries ls)"
  "critical_issues (accumulated path ls) = []"
  "warnings_list (accumulated path ls) = []"
  by (simp_all add: accumulated_def foldl_fold_line_fields new_result_def)

subsection \<open>The finalized result, and example lines\<close>

lemma issues_distinct [simp]:
  "disappearance_issue n \<noteq> server_issue" "disappearance_issue n \<noteq> client_issue"
  "server_issue \<noteq> client_issue" "client_issue \<noteq> server_issue"
  "server_issue \<noteq> disappearance_issue n" "client_issue \<noteq> disappearance_issue n"
  by (simp_all add: disappearance_issue_def server_issue_def client_issue_def)

lemma warnings_distinct [simp]:
  "interpolation_warning n \<noteq> mismatch_warning fmt x"
  "mismatch_warning fmt x \<noteq> interpolation_warning n"
  by (simp_all add: interpolation_warning_def mismatch_warning_def)

lemma mismatch_warning_inj: "mismatch_warning fmt x = mismatch_warning fmt y \<longleftrightarrow> fmt (x * 100) = fmt (y * 100)"
  by (simp add: mismatch_warning_def)

lemma parse_Inr_fields:
  assumes "parse fmt fs path = Inr r"
  shows "\<exists>ls. fs path = Some (Lines ls) \<and>
           critical_issues r = critical_of path r \<and> warnings_list r = warnings_of fmt r \<and>
           entries r = structured_entries ls \<and> total_lines r = int (length ls) \<and>
           errors r = errors (accumulated path ls) \<and>
           snapshots_sent r = snapshots_sent (accumulated path ls) \<and>
           snapshots_received r = snapshots_received (accumulated path ls) \<and>
           baseline_mismatches r = baseline_mismatches (accumulated path ls) \<and>
           player_disappearances r = player_disappearances (accumulated path ls) \<and>
           interpolation_warnings r = interpolation_warnings (accumulated path ls)"
proof -
  from parse_InrD [OF assms] obtain ls where
    fs: "fs path = Some (Lines ls)" and
    r: "r = (accumulated path ls)
              \<lparr>critical_issues := critical_issues (accumulated path ls) @
                                    critical_of path (accumulated path ls),
               warnings_list := warnings_list (accumulated path ls) @
                                  warnings_of fmt (accumulated path ls)\<rparr>"
    by blast
  have c: "critical_of path r = critical_of path (accumulated path ls)"
    by (simp add: r critical_of_def)
  have w: "warnings_of fmt r = warnings_of fmt (accumulated path ls)"
    by (simp add: r warnings_of_def)
  show ?thesis
    unfolding c w using fs by (simp add: r accumulated_fields)
qed

lemma parse_readable_fields:
  assumes "fs path = Some (Lines ls)"
  shows "\<exists>r. parse fmt fs path = Inr r \<and>
           entries r = structured_entries ls \<and> total_lines r = int (length ls) \<and>
           errors r = count_of (\<lambda>e. level e = ''ERROR'') (structured_entries ls) \<and>
           snapshots_sent r =
             count_of (\<lambda>e. category e = ''SERVER_SNAPSHOT'') (structured_entries ls) \<and>
           snapshots_received r =
             count_of (\<lambda>e. category e = ''CLIENT_SNAPSHOT'') (structured_entries ls) \<and>
           baseline_mismatches r =
             count_of (\<lambda>e. category e = ''CLIENT_DELTA'' \<and> sublist ''mismatch'' (lower (message e)))
               (structured_entries ls) \<and>
           player_disappearances r =
             count_of (\<lambda>e. category e = ''CLIENT_ERROR'' \<and> sublist ''missing'' (lower (message e)))
               (structured_entries ls) \<and>
           interpolation_warnings r =
             count_of (\<lambda>e. category e = ''INTERPOLATOR'' \<and> level e = ''WARN'')
               (structured_entries ls) \<and>
           critical_issues r = critical_of path r \<and> warnings_list r = warnings_of fmt r"
proof -
  define r where "r = (accumulated path ls)
              \<lparr>critical_issues := critical_issues (accumulated path ls) @
                                    critical_of path (accumulated path ls),
               warnings_list := warnings_list (accumulated path ls) @
                                  warnings_of fmt (accumulated path ls)\<rparr>"
  have p: "parse fmt fs path = Inr r"
    unfolding r_def by (rule parse_readable [of fs path ls fmt, OF assms])
  from parse_Inr_fields [OF p] assms show ?thesis
    using p by (auto simp: accumulated_fields)
qed

lemma parse_entry_simple:
  assumes wf: "run_of is_digit ip" "run_of is_digit fp" "run_of is_word lv"
      "run_of (\<lambda>c. c \<noteq> CHR '']'') cat"
    and msg: "msg \<noteq> []" "CHR ''|'' \<notin> set msg"
  shows "parse_entry (''['' @ ip @ ''.'' @ fp @ ''] ['' @ lv @ ''] ['' @ cat @ ''] '' @ msg) =
           Some \<lparr>timestamp = of_nat (decimal ip) + of_nat (decimal fp) / 10 ^ length fp,
                 level = lv, category = cat, message = strip msg, metadata = [],
                 raw_line = ''['' @ ip @ ''.'' @ fp @ ''] ['' @ lv @ ''] ['' @ cat @ ''] '' @ msg\<rparr>"
proof -
  have sp: "run_of is_space '' ''" by (simp add: run_of_def is_space_def)
  from msg obtain c cs where m: "msg = c # cs" "c \<noteq> CHR ''|''" by (cases msg) auto
  then have b: "msg \<noteq> []" "hd msg \<noteq> CHR ''|''" by simp_all
  have l: "''['' @ ip @ ''.'' @ fp @ ''] ['' @ lv @ ''] ['' @ cat @ ''] '' @ msg =
           ''['' @ ip @ ''.'' @ fp @ '']'' @ '' '' @ ''['' @ lv @ '']'' @ '' '' @
           ''['' @ cat @ '']'' @ '' '' @ msg"
    by simp
  have tk: "takeWhile notpipe msg = msg" using msg(2) by (rule takeWhile_whole)
  have dr: "dropWhile notpipe msg = []" using msg(2) by (rule dropWhile_whole)
  show ?thesis
    using parse_entry_line [OF wf(1,2) sp wf(3) sp wf(4) sp b l]
    by (simp only: tk dr meta_of_Nil)
qed

lemma example_snapshot_entry:
  "\<exists>e. parse_entry (strip ''[1.0] [INFO] [CLIENT_SNAPSHOT] Received snapshot'') = Some e \<and>
       level e = ''INFO'' \<and> category e = ''CLIENT_SNAPSHOT'' \<and> message e = ''Received snapshot''"
proof -
  have s: "strip ''[1.0] [INFO] [CLIENT_SNAPSHOT] Received snapshot'' =
           ''['' @ ''1'' @ ''.'' @ ''0'' @ ''] ['' @ ''INFO'' @ ''] ['' @ ''CLIENT_SNAPSHOT'' @ ''] '' @
           ''Received snapshot''"
    by code_simp
  have wf: "run_of is_digit ''1''" "run_of is_digit ''0''" "run_of is_word ''INFO''"
    "run_of (\<lambda>c. c \<noteq> CHR '']'') ''CLIENT_SNAPSHOT''"
    by code_simp+
  have m: "''Received snapshot'' \<noteq> []" "CHR ''|'' \<notin> set ''Received snapshot''"
    by simp_all
  have st: "strip ''Received snapshot'' = ''Received snapshot''" by code_simp
  show ?thesis unfolding s parse_entry_simple [OF wf m] by (simp add: st)
qed


lemma example_interpolator_entry:
  "\<exists>e. parse_entry (strip ''[3.0] [WARN] [INTERPOLATOR] Buffer low'') = Some e \<and>
       level e = ''WARN'' \<and> category e = ''INTERPOLATOR'' \<and> message e = ''Buffer low''"
proof -
  have s: "strip ''[3.0] [WARN] [INTERPOLATOR] Buffer low'' =
           ''['' @ ''3'' @ ''.'' @ ''0'' @ ''] ['' @ ''WARN'' @ ''] ['' @ ''INTERPOLATOR'' @ ''] '' @
           ''Buffer low''"
    by code_simp
  have wf: "run_of is_digit ''3''" "run_of is_digit ''0''" "run_of is_word ''WARN''"
    "run_of (\<lambda>c. c \<noteq> CHR '']'') ''INTERPOLATOR''"
    by code_simp+
  have m: "''Buffer low'' \<noteq> []" "CHR ''|'' \<notin> set ''Buffer low''"
    by simp_all
  have st: "strip ''Buffer low'' = ''Buffer low''" by code_simp
  show ?thesis unfolding s parse_entry_simple [OF wf m] by (simp add: st)
qed

text \<open>
  Claim C10. A record increments at most one of the four level counters, and none of
  them decreases; after every prefix of the lines of a file the pass has returned a
  result with \<open>errors + warnings + info + debug \<le> number of structured entries \<le>
  total_lines\<close>; and the bound also holds between the statements of one iteration:
  after the line count is incremented, after the entry is appended, and after the
  metrics are updated.
\<close>

theorem level_counters_bounded:
  "(\<exists>r. parse_lines (new_result name) (take k ls) = Inr r \<and>
        errors r + warnings r + info r + debug r \<le> int (length (entries r)) \<and>
        int (length (entries r)) \<le> total_lines r) \<and>
   errors (update_metrics e r0) + warnings (update_metrics e r0) + info (update_metrics e r0) +
     debug (update_metrics e r0) \<le> errors r0 + warnings r0 + info r0 + debug r0 + 1 \<and>
   errors r0 \<le> errors (update_metrics e r0) \<and> warnings r0 \<le> warnings (update_metrics e r0) \<and>
   info r0 \<le> info (update_metrics e r0) \<and> debug r0 \<le> debug (update_metrics e r0) \<and>
   (counters_bounded r0 \<longrightarrow>
      counters_bounded (r0\<lparr>total_lines := total_lines r0 + 1\<rparr>) \<and>
      counters_bounded (r0\<lparr>total_lines := total_lines r0 + 1, entries := entries r0 @ [e]\<rparr>) \<and>
      counters_bounded (update_metrics e
         (r0\<lparr>total_lines := total_lines r0 + 1, entries := entries r0 @ [e]\<rparr>)))"
proof -
  have "counters_bounded (foldl fold_line (new_result name) (take k ls))"
    by (rule bounded_foldl [OF bounded_new])
  then have "\<exists>r. parse_lines (new_result name) (take k ls) = Inr r \<and>
        errors r + warnings r + info r + debug r \<le> int (length (entries r)) \<and>
        int (length (entries r)) \<le> total_lines r"
    by (simp add: parse_lines_eq counters_bounded_def)
  moreover have "errors (update_metrics e r0) + warnings (update_metrics e r0) +
     info (update_metrics e r0) + debug (update_metrics e r0) \<le>
     errors r0 + warnings r0 + info r0 + debug r0 + 1"
    unfolding level_sum_update by simp
  ultimately show ?thesis
    using level_monotone [of r0 e] bounded_bump [of r0] bounded_append [of r0 e]
      bounded_update [of r0 e] by blast
qed

theorem level_counters_bounded_witness:
  "counters_bounded (new_result ''client_0.log'') \<and>
   counters_bounded (update_metrics
      \<lparr>timestamp = 1, level = ''WARN'', category = ''INTERPOLATOR'', message = ''buffer low'',
       metadata = [], raw_line = ''[1.0] [WARN] [INTERPOLATOR] buffer low''\<rparr>
      ((new_result ''client_0.log'')
         \<lparr>total_lines := total_lines (new_result ''client_0.log'') + 1,
          entries := entries (new_result ''client_0.log'') @
            [\<lparr>timestamp = 1, level = ''WARN'', category = ''INTERPOLATOR'',
              message = ''buffer low'', metadata = [],
              raw_line = ''[1.0] [WARN] [INTERPOLATOR] buffer low''\<rparr>]\<rparr>))"
proof -
  have h: "counters_bounded (new_result ''client_0.log'')"
    by (simp add: counters_bounded_def new_result_def)
  show ?thesis
    using h level_counters_bounded [of "''client_0.log''" 1
        "[''[1.0] [WARN] [INTERPOLATOR] buffer low'']"
        "\<lparr>timestamp = 1, level = ''WARN'', category = ''INTERPOLATOR'', message = ''buffer low'',
          metadata = [], raw_line = ''[1.0] [WARN] [INTERPOLATOR] buffer low''\<rparr>"
        "new_result ''client_0.log''"]
    by blast
qed

text \<open>
  Claim C5. A line that, once stripped, is not a structured line makes the parser return
  \<open>None\<close>; the loop body then returns the result with \<open>total_lines\<close> incremented by
  one and nothing else changed, so the number of structured entries is the same. A
  bracketed first token that is not of the form digits, dot, digits makes a line
  unstructured. The parser raises on no line at all.
\<close>

theorem unstructured_line_skipped:
  "(\<not> structured (strip line) \<longrightarrow>
      parse_line (strip line) = Inr None \<and>
      (\<exists>r'. process_line r line = Inr r' \<and> r' = r\<lparr>total_lines := total_lines r + 1\<rparr> \<and>
            total_lines r' = total_lines r + 1 \<and> length (entries r') = length (entries r))) \<and>
   (CHR '']'' \<notin> set tok \<and> \<not> timestamp_token tok \<longrightarrow> \<not> structured (''['' @ tok @ '']'' @ rest)) \<and>
   (\<exists>res. parse_line l = Inr res)"
proof (intro conjI impI)
  assume a: "\<not> structured (strip line)"
  show "parse_line (strip line) = Inr None"
    by (simp add: parse_line_eq parse_entry_unstructured [OF a])
  show "\<exists>r'. process_line r line = Inr r' \<and> r' = r\<lparr>total_lines := total_lines r + 1\<rparr> \<and>
            total_lines r' = total_lines r + 1 \<and> length (entries r') = length (entries r)"
    by (simp add: process_line_eq fold_line_def parse_entry_unstructured [OF a])
next
  assume "CHR '']'' \<notin> set tok \<and> \<not> timestamp_token tok"
  then show "\<not> structured (''['' @ tok @ '']'' @ rest)"
    using malformed_timestamp by blast
next
  show "\<exists>res. parse_line l = Inr res" by (simp add: parse_line_eq)
qed

theorem unstructured_line_skipped_witness:
  "\<not> structured (strip (''[12] [INFO] [NET] ready'' @ [CHR 0x0A])) \<and>
   CHR '']'' \<notin> set ''12'' \<and> \<not> timestamp_token ''12'' \<and>
   \<not> structured (''['' @ ''12'' @ '']'' @ '' [INFO] [NET] ready'') \<and>
   parse_line (strip (''[12] [INFO] [NET] ready'' @ [CHR 0x0A])) = Inr None \<and>
   process_line (new_result ''server.log'') (''[12] [INFO] [NET] ready'' @ [CHR 0x0A]) =
     Inr ((new_result ''server.log'')\<lparr>total_lines := total_lines (new_result ''server.log'') + 1\<rparr>)"
proof -
  have s: "strip (''[12] [INFO] [NET] ready'' @ [CHR 0x0A]) = ''[12] [INFO] [NET] ready''"
    by code_simp
  have h: "header ''[12] [INFO] [NET] ready'' = None"
    by code_simp
  have u: "\<not> structured (strip (''[12] [INFO] [NET] ready'' @ [CHR 0x0A]))"
    unfolding s using parse_entry_structured [of "''[12] [INFO] [NET] ready''"]
      header_None_entry [OF h] by simp
  have t: "CHR '']'' \<notin> set ''12''" "\<not> timestamp_token ''12''"
    by (simp_all add: no_dot_token)
  note c5 = unstructured_line_skipped [of "''[12] [INFO] [NET] ready'' @ [CHR 0x0A]"
        "new_result ''server.log''" "''12''" "'' [INFO] [NET] ready''"]
  from c5 [THEN conjunct1] u
  have ab: "parse_line (strip (''[12] [INFO] [NET] ready'' @ [CHR 0x0A])) = Inr None \<and>
      (\<exists>r'. process_line (new_result ''server.log'') (''[12] [INFO] [NET] ready'' @ [CHR 0x0A]) =
              Inr r' \<and>
            r' = (new_result ''server.log'')
                   \<lparr>total_lines := total_lines (new_result ''server.log'') + 1\<rparr> \<and>
            total_lines r' = total_lines (new_result ''server.log'') + 1 \<and>
            length (entries r') = length (entries (new_result ''server.log'')))"
    by (rule mp)
  then have a: "parse_line (strip (''[12] [INFO] [NET] ready'' @ [CHR 0x0A])) = Inr None"
    by (rule conjunct1)
  from ab have b: "process_line (new_result ''server.log'') (''[12] [INFO] [NET] ready'' @ [CHR 0x0A]) =
     Inr ((new_result ''server.log'')\<lparr>total_lines := total_lines (new_result ''server.log'') + 1\<rparr>)"
    by (elim conjE exE) (simp only:)
  from c5 [THEN conjunct2, THEN conjunct1] conjI [OF t]
  have c: "\<not> structured (''['' @ ''12'' @ '']'' @ '' [INFO] [NET] ready'')"
    by (rule mp)
  show ?thesis
    by (intro conjI u t a b c)
qed



text \<open>
  Claim C8. In a finalized result, the issue "Client received 0 snapshots" is among the
  critical issues exactly when \<open>snapshots_received\<close> is 0 and the lower-cased path
  contains \<^verbatim>\<open>client\<close>, and the issue "Server sent 0 snapshots" exactly when
  \<open>snapshots_sent\<close> is 0 and the lower-cased path contains \<^verbatim>\<open>server\<close>.
\<close>

theorem zero_snapshot_issues:
  assumes "parse fmt fs path = Inr r"
  shows "(client_issue \<in> set (critical_issues r) \<longleftrightarrow>
            snapshots_received r = 0 \<and> sublist ''client'' (lower path)) \<and>
         (server_issue \<in> set (critical_issues r) \<longleftrightarrow>
            snapshots_sent r = 0 \<and> sublist ''server'' (lower path))"
proof -
  from parse_Inr_fields [OF assms] have "critical_issues r = critical_of path r" by blast
  then show ?thesis by (simp add: critical_of_def)
qed

theorem zero_snapshot_issues_witness:
  "(\<exists>r. parse plain_fmt [''client_0.log'' \<mapsto> Lines [], ''server.log'' \<mapsto> Lines []] ''client_0.log'' =
          Inr r \<and>
        snapshots_received r = 0 \<and> snapshots_sent r = 0 \<and>
        client_issue \<in> set (critical_issues r) \<and> server_issue \<notin> set (critical_issues r)) \<and>
   (\<exists>r. parse plain_fmt [''client_0.log'' \<mapsto> Lines [], ''server.log'' \<mapsto> Lines []] ''server.log'' =
          Inr r \<and>
        snapshots_received r = 0 \<and> snapshots_sent r = 0 \<and>
        server_issue \<in> set (critical_issues r) \<and> client_issue \<notin> set (critical_issues r))"
proof -
  let ?fs = "[''client_0.log'' \<mapsto> Lines [], ''server.log'' \<mapsto> Lines []]"
  have c: "sublist ''client'' (lower ''client_0.log'')" "\<not> sublist ''server'' (lower ''client_0.log'')"
    "\<not> sublist ''client'' (lower ''server.log'')" "sublist ''server'' (lower ''server.log'')"
    by code_simp+
  have "?fs ''client_0.log'' = Some (Lines [])" by simp
  from parse_readable_fields [of ?fs "''client_0.log''" "[]" plain_fmt, OF this] obtain r1 where
    r1: "parse plain_fmt ?fs ''client_0.log'' = Inr r1"
      "snapshots_received r1 = 0" "snapshots_sent r1 = 0"
    by auto
  have "?fs ''server.log'' = Some (Lines [])" by simp
  from parse_readable_fields [of ?fs "''server.log''" "[]" plain_fmt, OF this] obtain r2 where
    r2: "parse plain_fmt ?fs ''server.log'' = Inr r2"
      "snapshots_received r2 = 0" "snapshots_sent r2 = 0"
    by auto
  from zero_snapshot_issues [OF r1(1)] r1(2,3) c
  have a1: "client_issue \<in> set (critical_issues r1)" "server_issue \<notin> set (critical_issues r1)"
    by simp_all
  from zero_snapshot_issues [OF r2(1)] r2(2,3) c
  have a2: "server_issue \<in> set (critical_issues r2)" "client_issue \<notin> set (critical_issues r2)"
    by simp_all
  show ?thesis using r1 a1 r2 a2 by blast
qed



text \<open>
  Claim C7. In a finalized result, \<open>interpolation_warnings\<close> is the number of structured
  entries with category \<^verbatim>\<open>INTERPOLATOR\<close> and level \<^verbatim>\<open>WARN\<close>; the warning about
  them is in the list of warnings if that number is strictly greater than 10, and
  otherwise the list holds no such warning. Nine such lines, interleaved with others,
  give no warning; eleven give it.
\<close>

theorem interpolation_warning_threshold:
  assumes "parse fmt fs path = Inr r"
  shows "interpolation_warnings r =
           int (length (filter (\<lambda>e. category e = ''INTERPOLATOR'' \<and> level e = ''WARN'') (entries r))) \<and>
         (10 < interpolation_warnings r \<longrightarrow>
            interpolation_warning (interpolation_warnings r) \<in> set (warnings_list r)) \<and>
         (\<not> 10 < interpolation_warnings r \<longrightarrow>
            (\<forall>n. interpolation_warning n \<notin> set (warnings_list r)))"
proof -
  from parse_Inr_fields [OF assms] obtain ls where
    "warnings_list r = warnings_of fmt r" "entries r = structured_entries ls"
    "interpolation_warnings r = interpolation_warnings (accumulated path ls)"
    by blast
  then show ?thesis by (simp add: warnings_of_def accumulated_fields count_of_def)
qed

theorem interpolation_warning_threshold_witness:
  "(\<exists>r. parse plain_fmt
          [''run/client_0.log'' \<mapsto>
             Lines (replicate 5 ''[3.0] [WARN] [INTERPOLATOR] Buffer low'' @
                    replicate 2 ''[1.0] [INFO] [CLIENT_SNAPSHOT] Received snapshot'' @
                    replicate 4 ''[3.0] [WARN] [INTERPOLATOR] Buffer low''),
           ''run/client_1.log'' \<mapsto>
             Lines (replicate 5 ''[3.0] [WARN] [INTERPOLATOR] Buffer low'' @
                    replicate 2 ''[1.0] [INFO] [CLIENT_SNAPSHOT] Received snapshot'' @
                    replicate 6 ''[3.0] [WARN] [INTERPOLATOR] Buffer low'')]
          ''run/client_0.log'' = Inr r \<and>
        interpolation_warnings r = 9 \<and>
        (\<forall>n. interpolation_warning n \<notin> set (warnings_list r))) \<and>
   (\<exists>r. parse plain_fmt
          [''run/client_0.log'' \<mapsto>
             Lines (replicate 5 ''[3.0] [WARN] [INTERPOLATOR] Buffer low'' @
                    replicate 2 ''[1.0] [INFO] [CLIENT_SNAPSHOT] Received snapshot'' @
                    replicate 4 ''[3.0] [WARN] [INTERPOLATOR] Buffer low''),
           ''run/client_1.log'' \<mapsto>
             Lines (replicate 5 ''[3.0] [WARN] [INTERPOLATOR] Buffer low'' @
                    replicate 2 ''[1.0] [INFO] [CLIENT_SNAPSHOT] Received snapshot'' @
                    replicate 6 ''[3.0] [WARN] [INTERPOLATOR] Buffer low'')]
          ''run/client_1.log'' = Inr r \<and>
        interpolation_warnings r = 11 \<and>
        interpolation_warning 11 \<in> set (warnings_list r))"
proof -
  define snap where "snap = ''[1.0] [INFO] [CLIENT_SNAPSHOT] Received snapshot''"
  define ipl where "ipl = ''[3.0] [WARN] [INTERPOLATOR] Buffer low''"
  define fs where "fs =
     [''run/client_0.log'' \<mapsto> Lines (replicate 5 ipl @ replicate 2 snap @ replicate 4 ipl),
      ''run/client_1.log'' \<mapsto> Lines (replicate 5 ipl @ replicate 2 snap @ replicate 6 ipl)]"
  from example_snapshot_entry obtain e1 where
    e1: "parse_entry (strip snap) = Some e1" "category e1 = ''CLIENT_SNAPSHOT''"
    unfolding snap_def by blast
  from example_interpolator_entry obtain e2 where
    e2: "parse_entry (strip ipl) = Some e2" "category e2 = ''INTERPOLATOR''" "level e2 = ''WARN''"
    unfolding ipl_def by blast
  note ev = structured_entries_replicate_Some [OF e1(1)] structured_entries_replicate_Some [OF e2(1)]
    count_of_replicate e1(2) e2(2,3)
  have f0: "fs ''run/client_0.log'' =
              Some (Lines (replicate 5 ipl @ replicate 2 snap @ replicate 4 ipl))"
    and f1: "fs ''run/client_1.log'' =
              Some (Lines (replicate 5 ipl @ replicate 2 snap @ replicate 6 ipl))"
    by (simp_all add: fs_def)
  from parse_readable_fields [of fs "''run/client_0.log''" _ plain_fmt, OF f0] obtain r0 where
    r0: "parse plain_fmt fs ''run/client_0.log'' = Inr r0" "interpolation_warnings r0 = 9"
    by (auto simp: ev)
  from parse_readable_fields [of fs "''run/client_1.log''" _ plain_fmt, OF f1] obtain r1 where
    r1: "parse plain_fmt fs ''run/client_1.log'' = Inr r1" "interpolation_warnings r1 = 11"
    by (auto simp: ev)
  from interpolation_warning_threshold [OF r0(1)] r0(2)
  have a0: "\<forall>n. interpolation_warning n \<notin> set (warnings_list r0)" by simp
  from interpolation_warning_threshold [OF r1(1)] r1(2)
  have a1: "interpolation_warning 11 \<in> set (warnings_list r1)" by simp
  show ?thesis
    using r0 a0 r1 a1 unfolding fs_def snap_def ipl_def by blast
qed

end
